theory Spec2Isabelle
  imports Main
begin

section \<open>SAML sign-in on users: the model of \<open>auth_saml/models/res_users.py\<close>\<close>

text \<open>
  The module extends the user model of the framework with SAML sign-in. The embedding
  keeps three tables (users, SAML links, tokens), the configuration parameters, the
  reference \<open>base.user_admin\<close>, the installed modules, the session's user, the database
  name and the logger's output in one record, passed through every operation and returned
  with its outcome. An exception is a value: every operation returns the pair of its
  outcome (\<open>Inl\<close> the exception raised, \<open>Inr\<close> the value returned) and the state reached
  at that point.

  A character field read through the framework is \<open>False\<close> or a string: \<open>None\<close> stands
  for \<open>False\<close>. A recordset is the list of its record identifiers, in order.

  The field \<open>password\<close> of a user is computed by the base class and obfuscated (lines 46
  to 48): the column of the table holds the hash, and the field reads as the empty string
  unless the cache holds a value, which is the case between the moment a \<open>write\<close> stores
  the new password and the moment the inverse method \<open>_set_password\<close> has hashed it and
  invalidated the cache (lines 62 to 69). A user therefore has the column and the cache.
\<close>

subsection \<open>Data\<close>

datatype error =
    AccessDenied
  | ValidationError "string option list"
  | ValueError
  | KeyError
  | MissingError
  | PasswordSizeError
  | OtherError string

text \<open>The hash of a password: the model keeps the string it is the hash of.\<close>

datatype hashed = Hashed string

record res_users =
  user_ident :: int
  login :: "string option"
  password_column :: "hashed option"
  password_cache :: "string option option"

record res_users_saml =
  user_id :: int
  saml_provider_id :: int
  saml_uid :: string

record auth_saml_token =
  token_user_id :: int
  token_provider_id :: int
  saml_access_token :: "string option"

record env =
  res_users_table :: "res_users list"
  res_users_saml_table :: "res_users_saml list"
  auth_saml_token_table :: "auth_saml_token list"
  ir_config_parameter :: "(string \<times> string) list"
  base_user_admin :: "int option"
  installed_modules :: "string list"
  generated_password :: string
  session_uid :: int
  dbname :: string
  logger :: "string list"

text \<open>The dictionary passed to \<open>write\<close>: field names with their new values.\<close>

type_synonym vals = "(string \<times> string option) list"

text \<open>
  The dictionary the provider's validation returns: \<open>user_id\<close> (\<open>None\<close> when the key is
  missing) and \<open>mapped_attrs\<close> (\<open>None\<close> when the key is missing).
\<close>

record validation =
  validation_user_id :: "string option"
  mapped_attrs :: "vals option"

text \<open>
  Reading \<open>user.password\<close>: the value the cache holds, or the empty string the base
  class computes when it holds none.
\<close>

definition password :: "res_users \<Rightarrow> string option" where
  "password u = (case password_cache u of None \<Rightarrow> Some [] | Some v \<Rightarrow> v)"

definition SUPERUSER_ID :: int where
  "SUPERUSER_ID = 1"

text \<open>Python's truth value of a character field: \<open>False\<close> and the empty string are falsy.\<close>

definition truthy :: "string option \<Rightarrow> bool" where
  "truthy v = (case v of None \<Rightarrow> False | Some str \<Rightarrow> str \<noteq> [])"

subsection \<open>Framework primitives the module calls\<close>

text \<open>
  \<open>ir.config_parameter.get_param(key, default)\<close> returns the stored value, or the default
  when the parameter is absent or its value is falsy.
\<close>

definition get_param :: "env \<Rightarrow> string \<Rightarrow> string \<Rightarrow> string" where
  "get_param s key dflt =
     (case map_of (ir_config_parameter s) key of
        None \<Rightarrow> dflt
      | Some v \<Rightarrow> if v = [] then dflt else v)"

definition lower_char :: "char \<Rightarrow> char" where
  "lower_char c =
     (let n = (of_char c :: nat) in if 65 \<le> n \<and> n \<le> 90 then char_of (n + 32) else c)"

text \<open>
  \<open>tools.str2bool(s)\<close> with no default: the lower-cased string is looked up among the
  words for true and the words for false, and any other string raises \<open>ValueError\<close>.
\<close>

definition str2bool :: "string \<Rightarrow> error + bool" where
  "str2bool str =
     (let l = map lower_char str;
          y = [''y'', ''yes'', ''1'', ''true'', ''t'', ''on''];
          n = [''n'', ''no'', ''0'', ''false'', ''f'', ''off'']
      in if l \<notin> set (y @ n) then Inl ValueError else Inr (l \<in> set y))"

text \<open>\<open>recordset.filtered(func)\<close>, where evaluating \<open>func\<close> on a record may raise.\<close>

fun filtered :: "('a \<Rightarrow> error + bool) \<Rightarrow> 'a list \<Rightarrow> error + 'a list" where
  "filtered p [] = Inr []"
| "filtered p (x # xs) =
     (case p x of
        Inl e \<Rightarrow> Inl e
      | Inr b \<Rightarrow>
          (case filtered p xs of
             Inl e \<Rightarrow> Inl e
           | Inr ys \<Rightarrow> Inr (if b then x # ys else ys)))"

text \<open>Reading a field of a user: the record must exist.\<close>

definition browse :: "env \<Rightarrow> int \<Rightarrow> error + res_users" where
  "browse s i =
     (case find (\<lambda>u. user_ident u = i) (res_users_table s) of
        None \<Rightarrow> Inl MissingError
      | Some u \<Rightarrow> Inr u)"

text \<open>\<open>recordset.mapped("login")\<close>.\<close>

fun mapped_login :: "env \<Rightarrow> int list \<Rightarrow> error + string option list" where
  "mapped_login s [] = Inr []"
| "mapped_login s (i # is) =
     (case browse s i of
        Inl e \<Rightarrow> Inl e
      | Inr u \<Rightarrow>
          (case mapped_login s is of
             Inl e \<Rightarrow> Inl e
           | Inr ls \<Rightarrow> Inr (login u # ls)))"

text \<open>
  \<open>self.id\<close> on a recordset: \<open>False\<close> (which equals 0) when it is empty, the identifier
  of a singleton, and \<open>ValueError\<close> (expected singleton) otherwise.
\<close>

fun self_id :: "int list \<Rightarrow> error + int" where
  "self_id [] = Inr 0"
| "self_id [i] = Inr i"
| "self_id (i # j # js) = Inl ValueError"

text \<open>The field \<open>saml_ids\<close> of a user: the links whose \<open>user_id\<close> is the user.\<close>

definition saml_ids :: "env \<Rightarrow> int \<Rightarrow> res_users_saml list" where
  "saml_ids s i = filter (\<lambda>l. user_id l = i) (res_users_saml_table s)"

definition update_users :: "(res_users \<Rightarrow> res_users) \<Rightarrow> int list \<Rightarrow> env \<Rightarrow> env" where
  "update_users f ids s =
     s\<lparr>res_users_table :=
          map (\<lambda>u. if user_ident u \<in> set ids then f u else u) (res_users_table s)\<rparr>"

text \<open>\<open>auth_saml.token.search\<close> on the user and the provider, and \<open>create\<close>.\<close>

definition search_token :: "env \<Rightarrow> int \<Rightarrow> int \<Rightarrow> auth_saml_token list" where
  "search_token s provider uid =
     filter (\<lambda>t. token_provider_id t = provider \<and> token_user_id t = uid)
       (auth_saml_token_table s)"

definition create_token :: "auth_saml_token \<Rightarrow> env \<Rightarrow> env" where
  "create_token t s = s\<lparr>auth_saml_token_table := auth_saml_token_table s @ [t]\<rparr>"

subsection \<open>The policy: lines 24 to 70 and 206 to 213\<close>

definition saml_allowed_user_ids :: "env \<Rightarrow> int set" where
  "saml_allowed_user_ids s =
     (case base_user_admin s of
        None \<Rightarrow> {SUPERUSER_ID}
      | Some user_admin \<Rightarrow> insert user_admin {SUPERUSER_ID})"

definition allow_saml_and_password :: "env \<Rightarrow> error + bool" where
  "allow_saml_and_password s =
     str2bool (get_param s ''auth_saml.allow_saml_uid_and_internal_password'' ''False'')"

text \<open>
  The test of \<open>_set_password\<close> on one user of the recordset \<open>self\<close>:
  \<open>user.sudo().saml_ids and self.id not in self._saml_allowed_user_ids() and user.password\<close>,
  evaluated from left to right, stopping at the first falsy operand.
\<close>

definition set_password_test :: "env \<Rightarrow> int list \<Rightarrow> int \<Rightarrow> error + bool" where
  "set_password_test s self i =
     (if saml_ids s i = [] then Inr False
      else case self_id self of
             Inl e \<Rightarrow> Inl e
           | Inr sid \<Rightarrow>
               if sid \<in> saml_allowed_user_ids s then Inr False
               else (case browse s i of
                       Inl e \<Rightarrow> Inl e
                     | Inr u \<Rightarrow> Inr (truthy (password u))))"

definition password_is_False :: "env \<Rightarrow> int \<Rightarrow> error + bool" where
  "password_is_False s i =
     (case browse s i of Inl e \<Rightarrow> Inl e | Inr u \<Rightarrow> Inr (password u = None))"

text \<open>
  The base class's \<open>_set_password\<close>, on the users whose password is not \<open>False\<close>:
  the hash of the password each user presents goes to the column, and the cache is
  invalidated.
\<close>

definition base_set_password :: "env \<Rightarrow> int list \<Rightarrow> env" where
  "base_set_password s self =
     update_users
       (\<lambda>u. u\<lparr>password_column :=
                 Some (Hashed (case password u of None \<Rightarrow> [] | Some str \<Rightarrow> str)),
               password_cache := None\<rparr>)
       self s"

text \<open>
  The second half of \<open>_set_password\<close> (lines 57 to 70): the users whose password is not
  \<open>False\<close> go to the base class; the users whose password is \<open>False\<close> get the column set
  to \<open>NULL\<close> and the cache invalidated.
\<close>

definition set_password_store :: "env \<Rightarrow> int list \<Rightarrow> (error + unit) \<times> env" where
  "set_password_store s self =
     (case filtered (password_is_False s) self of
        Inl e \<Rightarrow> (Inl e, s)
      | Inr blank_password_users \<Rightarrow>
          (let non_blank_password_users =
                 filter (\<lambda>i. i \<notin> set blank_password_users) self;
               s1 = base_set_password s non_blank_password_users
           in (Inr (),
               update_users (\<lambda>u. u\<lparr>password_column := None, password_cache := None\<rparr>)
                 blank_password_users s1)))"

definition set_password :: "env \<Rightarrow> int list \<Rightarrow> (error + unit) \<times> env" where
  "set_password s self =
     (case allow_saml_and_password s of
        Inl e \<Rightarrow> (Inl e, s)
      | Inr allow \<Rightarrow>
          if allow then set_password_store s self
          else (case filtered (set_password_test s self) self of
                  Inl e \<Rightarrow> (Inl e, s)
                | Inr saml_users \<Rightarrow>
                    if saml_users \<noteq> [] then
                      (case mapped_login s saml_users of
                         Inl e \<Rightarrow> (Inl e, s)
                       | Inr logins \<Rightarrow> (Inl (ValidationError logins), s))
                    else set_password_store s self))"

subsection \<open>Token backfill: lines 215 to 233\<close>

text \<open>The inner loop, over the links of one user, and the outer loop, over the users.\<close>

fun ensure_token_links :: "int \<Rightarrow> res_users_saml list \<Rightarrow> env \<Rightarrow> env" where
  "ensure_token_links record_id [] s = s"
| "ensure_token_links record_id (provider # providers) s =
     ensure_token_links record_id providers
       (if search_token s (saml_provider_id provider) record_id = [] then
          create_token
            \<lparr>token_user_id = record_id,
             token_provider_id = saml_provider_id provider,
             saml_access_token = None\<rparr> s
        else s)"

fun ensure_token_records :: "int list \<Rightarrow> env \<Rightarrow> env" where
  "ensure_token_records [] s = s"
| "ensure_token_records (record_id # records) s =
     ensure_token_records records (ensure_token_links record_id (saml_ids s record_id) s)"

definition ensure_saml_token_exists :: "env \<Rightarrow> int list \<Rightarrow> env" where
  "ensure_saml_token_exists s self =
     ensure_token_records (filter (\<lambda>r. saml_ids s r \<noteq> []) self) s"

subsection \<open>Writing users and the automatic removal of passwords: lines 166 to 197\<close>

text \<open>
  The base class's \<open>write\<close>: the values are stored on every record of the recordset (a
  new password in the cache, since the field is computed), and when the password is among
  them its inverse method \<open>_set_password\<close> runs on the recordset. Of the fields of a
  user the model keeps \<open>login\<close> and \<open>password\<close>.
\<close>

definition apply_vals :: "vals \<Rightarrow> res_users \<Rightarrow> res_users" where
  "apply_vals vs u =
     u\<lparr>login := (case map_of vs ''login'' of None \<Rightarrow> login u | Some v \<Rightarrow> v),
       password_cache :=
         (case map_of vs ''password'' of None \<Rightarrow> password_cache u | Some v \<Rightarrow> Some v)\<rparr>"

definition base_write :: "env \<Rightarrow> int list \<Rightarrow> vals \<Rightarrow> (error + bool) \<times> env" where
  "base_write s self vs =
     (let s1 = update_users (apply_vals vs) self s in
      if map_of vs ''password'' = None then (Inr True, s1)
      else (case set_password s1 self of
              (Inl e, s2) \<Rightarrow> (Inl e, s2)
            | (Inr u, s2) \<Rightarrow> (Inr True, s2)))"

text \<open>
  \<open>_autoremove_password_if_saml_gen_password\<close>: \<open>False\<close>, or a generated password when
  the module \<open>password_security\<close> is installed. The state carries the string the
  generator yields.
\<close>

definition autoremove_password_if_saml_gen_password :: "env \<Rightarrow> string option" where
  "autoremove_password_if_saml_gen_password s =
     (if ''password_security'' \<in> set (installed_modules s)
      then Some (generated_password s) else None)"

text \<open>The test of \<open>_autoremove_password_if_saml\<close> on one record.\<close>

definition autoremove_test :: "env \<Rightarrow> int \<Rightarrow> error + bool" where
  "autoremove_test s i =
     (if i = SUPERUSER_ID then Inr False
      else if saml_ids s i = [] then Inr False
      else (case browse s i of
              Inl e \<Rightarrow> Inl e
            | Inr u \<Rightarrow> Inr (truthy (password u))))"

text \<open>
  \<open>write\<close> (here \<open>write_users\<close>) and \<open>_autoremove_password_if_saml\<close> call each other.
  The first argument is the key \<open>auth_saml_no_autoremove_password\<close> of the context
  the call runs in.
\<close>

function write_users :: "bool \<Rightarrow> env \<Rightarrow> int list \<Rightarrow> vals \<Rightarrow> (error + bool) \<times> env"
  and autoremove_password_if_saml :: "bool \<Rightarrow> env \<Rightarrow> int list \<Rightarrow> (error + unit) \<times> env"
where
  "write_users no_autoremove s self vs =
     (case base_write s self vs of
        (Inl e, s1) \<Rightarrow> (Inl e, s1)
      | (Inr result, s1) \<Rightarrow>
          (case autoremove_password_if_saml no_autoremove s1 self of
             (Inl e, s2) \<Rightarrow> (Inl e, s2)
           | (Inr u, s2) \<Rightarrow> (Inr result, ensure_saml_token_exists s2 self)))"
| "autoremove_password_if_saml no_autoremove s self =
     (if no_autoremove then (Inr (), s)
      else (case allow_saml_and_password s of
              Inl e \<Rightarrow> (Inl e, s)
            | Inr allow \<Rightarrow>
                if allow then (Inr (), s)
                else (case filtered (autoremove_test s) self of
                        Inl e \<Rightarrow> (Inl e, s)
                      | Inr to_remove_password \<Rightarrow>
                          if to_remove_password = [] then (Inr (), s)
                          else (case write_users True s to_remove_password
                                       [(''password'', autoremove_password_if_saml_gen_password s)] of
                                  (Inl e, s1) \<Rightarrow> (Inl e, s1)
                                | (Inr r, s1) \<Rightarrow> (Inr (), s1)))))"
  by pat_completeness auto
termination
  by (relation "measure (\<lambda>x. case x of
         Inl (c, s, self, vs) \<Rightarrow> (if c then 1 else 3)
       | Inr (c, s, self) \<Rightarrow> (if c then 0 else 2))") auto

declare write_users.simps [simp del]
declare autoremove_password_if_saml.simps [simp del]

text \<open>
  \<open>create\<close> (lines 199 to 204) runs the same two steps, \<open>_autoremove_password_if_saml\<close>
  and \<open>_ensure_saml_token_exists\<close>, on the records the base class created; what the
  steps do on a recordset is stated on the steps themselves.
\<close>

subsection \<open>Sign-in: lines 72 to 137\<close>

text \<open>
  Lines 90 to 97: the search on the links with \<open>limit=1\<close>, then the users of the result.
\<close>

definition signin_search_user :: "env \<Rightarrow> int \<Rightarrow> string \<Rightarrow> int list" where
  "signin_search_user s provider uid =
     map user_id
       (take 1 (filter (\<lambda>l. saml_uid l = uid \<and> saml_provider_id l = provider)
                  (res_users_saml_table s)))"

text \<open>Lines 100 to 115: the token of the user and the provider is written or created.\<close>

definition signin_token :: "env \<Rightarrow> int \<Rightarrow> int \<Rightarrow> string \<Rightarrow> env" where
  "signin_token s provider uid saml_response =
     (if search_token s provider uid \<noteq> [] then
        s\<lparr>auth_saml_token_table :=
             map (\<lambda>t. if token_provider_id t = provider \<and> token_user_id t = uid
                       then t\<lparr>saml_access_token := Some saml_response\<rparr> else t)
               (auth_saml_token_table s)\<rparr>
      else
        create_token
          \<lparr>token_user_id = uid, token_provider_id = provider,
           saml_access_token = Some saml_response\<rparr>
          (s\<lparr>logger := logger s @ [''Creating auth_saml.token'']\<rparr>))"

definition read_login :: "env \<Rightarrow> int \<Rightarrow> (error + string option) \<times> env" where
  "read_login s uid =
     (case browse s uid of Inl e \<Rightarrow> (Inl e, s) | Inr u \<Rightarrow> (Inr (login u), s))"

definition auth_saml_signin ::
  "bool \<Rightarrow> env \<Rightarrow> int \<Rightarrow> validation \<Rightarrow> string \<Rightarrow> (error + string option) \<times> env" where
  "auth_saml_signin ctx s provider v saml_response =
     (case validation_user_id v of
        None \<Rightarrow> (Inl KeyError, s)
      | Some uid \<Rightarrow>
          (case signin_search_user s provider uid of
             [user] \<Rightarrow>
               (let s1 = signin_token s provider user saml_response in
                case mapped_attrs v of
                  None \<Rightarrow> read_login s1 user
                | Some attrs \<Rightarrow>
                    if attrs = [] then read_login s1 user
                    else (case write_users ctx s1 [user] attrs of
                            (Inl e, s2) \<Rightarrow> (Inl e, s2)
                          | (Inr r, s2) \<Rightarrow> read_login s2 user))
           | _ \<Rightarrow> (Inl AccessDenied, s)))"

text \<open>
  \<open>_auth_saml_validate\<close> hands the response to the provider's \<open>_validate_auth_response\<close>,
  which is not part of this file: it is the parameter \<open>validate_auth_response\<close>.
\<close>

definition auth_saml_validate ::
  "(int \<Rightarrow> string \<Rightarrow> string option \<Rightarrow> error + validation) \<Rightarrow>
     int \<Rightarrow> string \<Rightarrow> string option \<Rightarrow> error + validation" where
  "auth_saml_validate validate_auth_response provider_id token base_url =
     validate_auth_response provider_id token base_url"

definition auth_saml ::
  "(int \<Rightarrow> string \<Rightarrow> string option \<Rightarrow> error + validation) \<Rightarrow> bool \<Rightarrow> env \<Rightarrow>
     int \<Rightarrow> string \<Rightarrow> string option \<Rightarrow> (error + string \<times> string \<times> string) \<times> env" where
  "auth_saml validate_auth_response ctx s provider saml_response base_url =
     (case auth_saml_validate validate_auth_response provider saml_response base_url of
        Inl e \<Rightarrow> (Inl e, s)
      | Inr v \<Rightarrow>
          if \<not> truthy (validation_user_id v) then (Inl AccessDenied, s)
          else (case auth_saml_signin ctx s provider v saml_response of
                  (Inl e, s1) \<Rightarrow> (Inl e, s1)
                | (Inr lg, s1) \<Rightarrow>
                    (case lg of
                       None \<Rightarrow> (Inl AccessDenied, s1)
                     | Some l \<Rightarrow>
                         if l = [] then (Inl AccessDenied, s1)
                         else (Inr (dbname s1, l, saml_response), s1))))"

subsection \<open>The credential check: lines 139 to 164\<close>

text \<open>
  The base class's check (other authentication modules included) is the parameter
  \<open>super_check_credentials\<close>. The search is on the tokens of the session's user whose
  value is the password presented.
\<close>

definition check_credentials ::
  "(env \<Rightarrow> string \<Rightarrow> error + unit) \<Rightarrow> env \<Rightarrow> string \<Rightarrow> error + unit" where
  "check_credentials super_check_credentials s pw =
     (case super_check_credentials s pw of
        Inr r \<Rightarrow> Inr r
      | Inl e \<Rightarrow>
          if e = AccessDenied \<or> e = PasswordSizeError then
            (let token = filter (\<lambda>t. token_user_id t = session_uid s
                                        \<and> saml_access_token t = Some pw)
                           (auth_saml_token_table s)
             in if token = [] then Inl AccessDenied else Inr ())
          else Inl e)"

subsection \<open>Repeated sign-ins\<close>

text \<open>
  A sequence of sign-in requests (provider, validation, response), each run on the state
  the one before left, whatever its outcome.
\<close>

fun repeated_signin :: "bool \<Rightarrow> env \<Rightarrow> (int \<times> validation \<times> string) list \<Rightarrow> env" where
  "repeated_signin ctx s [] = s"
| "repeated_signin ctx s ((provider, v, saml_response) # requests) =
     repeated_signin ctx (snd (auth_saml_signin ctx s provider v saml_response)) requests"

subsection \<open>Properties of states\<close>

definition token_key :: "auth_saml_token \<Rightarrow> int \<times> int" where
  "token_key t = (token_provider_id t, token_user_id t)"

definition token_keys :: "env \<Rightarrow> (int \<times> int) list" where
  "token_keys s = map token_key (auth_saml_token_table s)"

text \<open>At most one token for every pair of a provider and a user.\<close>

definition one_token_per_pair :: "env \<Rightarrow> bool" where
  "one_token_per_pair s = distinct (token_keys s)"

text \<open>What no operation of the module changes.\<close>

definition same_settings :: "env \<Rightarrow> env \<Rightarrow> bool" where
  "same_settings s s' =
     (res_users_saml_table s' = res_users_saml_table s
      \<and> ir_config_parameter s' = ir_config_parameter s
      \<and> base_user_admin s' = base_user_admin s
      \<and> installed_modules s' = installed_modules s
      \<and> generated_password s' = generated_password s
      \<and> session_uid s' = session_uid s
      \<and> dbname s' = dbname s)"

text \<open>
  The token table of \<open>s'\<close> is the one of \<open>s\<close> followed by placeholders (tokens with no
  value) for pairs that had no token in \<open>s\<close>, one for each.
\<close>

definition tokens_backfilled :: "env \<Rightarrow> env \<Rightarrow> bool" where
  "tokens_backfilled s s' =
     (\<exists>new. auth_saml_token_table s' = auth_saml_token_table s @ new
        \<and> list_all (\<lambda>t. saml_access_token t = None) new
        \<and> distinct (map token_key new)
        \<and> set (map token_key new) \<inter> set (token_keys s) = {})"

definition kept :: "env \<Rightarrow> env \<Rightarrow> bool" where
  "kept s s' = (same_settings s s' \<and> tokens_backfilled s s' \<and> logger s' = logger s)"

text \<open>No user's password is in the cache: the state between two calls of the framework.\<close>

definition at_rest :: "env \<Rightarrow> bool" where
  "at_rest s = list_all (\<lambda>u. password_cache u = None) (res_users_table s)"

subsection \<open>A database for the examples\<close>

text \<open>
  The superuser, the administrator \<open>base.user_admin\<close>, and the users alice and bob.
  Alice is linked to the subject \<open>abc\<close> of provider 1; the subject \<open>dup\<close> of provider 1
  has two links, to bob and to alice; the administrator is linked to \<open>adm\<close>. No token
  exists, the configuration has no parameter, and no password is in the cache.
\<close>

definition example_env :: env where
  "example_env =
     \<lparr>res_users_table =
        [\<lparr>user_ident = 1, login = Some ''__system__'',
          password_column = None, password_cache = None\<rparr>,
         \<lparr>user_ident = 2, login = Some ''admin'',
          password_column = Some (Hashed ''admin-secret''), password_cache = None\<rparr>,
         \<lparr>user_ident = 7, login = Some ''alice'',
          password_column = Some (Hashed ''alice-secret''), password_cache = None\<rparr>,
         \<lparr>user_ident = 8, login = Some ''bob'',
          password_column = Some (Hashed ''bob-secret''), password_cache = None\<rparr>],
      res_users_saml_table =
        [\<lparr>user_id = 7, saml_provider_id = 1, saml_uid = ''abc''\<rparr>,
         \<lparr>user_id = 8, saml_provider_id = 1, saml_uid = ''dup''\<rparr>,
         \<lparr>user_id = 7, saml_provider_id = 1, saml_uid = ''dup''\<rparr>,
         \<lparr>user_id = 2, saml_provider_id = 1, saml_uid = ''adm''\<rparr>],
      auth_saml_token_table = [],
      ir_config_parameter = [],
      base_user_admin = Some 2,
      installed_modules = [''base'', ''auth_saml''],
      generated_password = ''Aa0Bb1Cc2Dd3Ee4Ff5Gg6Hh7'',
      session_uid = 7,
      dbname = ''prod'',
      logger = []\<rparr>"

text \<open>A provider's validation that accepts every response as the given subject.\<close>

definition example_validate ::
  "string \<Rightarrow> int \<Rightarrow> string \<Rightarrow> string option \<Rightarrow> error + validation" where
  "example_validate subject provider_id token base_url =
     Inr \<lparr>validation_user_id = Some subject, mapped_attrs = None\<rparr>"

text \<open>The same database after the first sign-in of a user with the response \<open>blob\<close>.\<close>

definition example_env_signed_in :: "int \<Rightarrow> env" where
  "example_env_signed_in uid =
     example_env\<lparr>auth_saml_token_table :=
       [\<lparr>token_user_id = uid, token_provider_id = 1, saml_access_token = Some ''blob''\<rparr>],
       logger := [''Creating auth_saml.token'']\<rparr>"

text \<open>The same database where alice holds a token, and nothing was logged.\<close>

definition example_env_token :: env where
  "example_env_token =
     example_env\<lparr>auth_saml_token_table :=
       [\<lparr>token_user_id = 7, token_provider_id = 1, saml_access_token = Some ''blob''\<rparr>]\<rparr>"

section \<open>Auxiliary facts\<close>

subsection \<open>Settings and token keys\<close>

lemma same_settings_refl [simp]: "same_settings s s"
  by (simp add: same_settings_def)

lemma same_settings_trans: "same_settings s s1 \<Longrightarrow> same_settings s1 s2 \<Longrightarrow> same_settings s s2"
  by (simp add: same_settings_def)

lemma search_token_empty_iff:
  "search_token s p u = [] \<longleftrightarrow> (p, u) \<notin> set (token_keys s)"
  by (auto simp: search_token_def token_keys_def token_key_def filter_empty_conv)

lemma saml_ids_cong: "res_users_saml_table s' = res_users_saml_table s \<Longrightarrow> saml_ids s' = saml_ids s"
  by (simp add: saml_ids_def fun_eq_iff)

lemma create_token_tokens [simp]:
  "auth_saml_token_table (create_token t s) = auth_saml_token_table s @ [t]"
  by (simp add: create_token_def)

lemma create_token_settings [simp]: "same_settings s (create_token t s)"
  by (simp add: create_token_def same_settings_def)

lemma create_token_others [simp]:
  "res_users_table (create_token t s) = res_users_table s"
  "logger (create_token t s) = logger s"
  by (simp_all add: create_token_def)

lemma token_keys_alt: "token_keys s = map token_key (auth_saml_token_table s)"
  by (simp add: token_keys_def)

lemma tokens_backfilled_refl [simp]: "tokens_backfilled s s"
  by (simp add: tokens_backfilled_def)

lemma tokens_backfilled_cong:
  "auth_saml_token_table s' = auth_saml_token_table s \<Longrightarrow> tokens_backfilled s s'"
  by (simp add: tokens_backfilled_def)

lemma tokens_backfilled_trans:
  assumes "tokens_backfilled s s1" and "tokens_backfilled s1 s2"
  shows "tokens_backfilled s s2"
proof -
  from assms(1) obtain n1 where n1: "auth_saml_token_table s1 = auth_saml_token_table s @ n1"
    "list_all (\<lambda>t. saml_access_token t = None) n1" "distinct (map token_key n1)"
    "set (map token_key n1) \<inter> set (token_keys s) = {}"
    unfolding tokens_backfilled_def by blast
  from assms(2) obtain n2 where n2: "auth_saml_token_table s2 = auth_saml_token_table s1 @ n2"
    "list_all (\<lambda>t. saml_access_token t = None) n2" "distinct (map token_key n2)"
    "set (map token_key n2) \<inter> set (token_keys s1) = {}"
    unfolding tokens_backfilled_def by blast
  have k1: "token_keys s1 = token_keys s @ map token_key n1"
    using n1(1) by (simp add: token_keys_alt)
  have "auth_saml_token_table s2 = auth_saml_token_table s @ (n1 @ n2)"
    using n1(1) n2(1) by simp
  moreover have "list_all (\<lambda>t. saml_access_token t = None) (n1 @ n2)"
    using n1(2) n2(2) by simp
  moreover have "distinct (map token_key (n1 @ n2))"
    using n1(3) n2(3) n2(4) k1 by auto
  moreover have "set (map token_key (n1 @ n2)) \<inter> set (token_keys s) = {}"
    using n1(4) n2(4) k1 by auto
  ultimately show ?thesis
    unfolding tokens_backfilled_def by blast
qed

lemma tokens_backfilled_create:
  assumes "search_token s (token_provider_id t) (token_user_id t) = []"
    and "saml_access_token t = None"
  shows "tokens_backfilled s (create_token t s)"
proof -
  have "token_key t \<notin> set (token_keys s)"
    using assms(1) by (simp add: search_token_empty_iff token_key_def)
  then show ?thesis
    using assms(2) unfolding tokens_backfilled_def
    by (intro exI [of _ "[t]"]) simp
qed

lemma tokens_backfilled_distinct:
  assumes "tokens_backfilled s s'" and "one_token_per_pair s"
  shows "one_token_per_pair s'"
proof -
  from assms(1) obtain new where n: "auth_saml_token_table s' = auth_saml_token_table s @ new"
    "distinct (map token_key new)" "set (map token_key new) \<inter> set (token_keys s) = {}"
    unfolding tokens_backfilled_def by blast
  have "token_keys s' = token_keys s @ map token_key new"
    using n(1) by (simp add: token_keys_alt)
  then show ?thesis
    using assms(2) n(2) n(3) by (auto simp: one_token_per_pair_def)
qed

lemma tokens_backfilled_search:
  assumes "tokens_backfilled s s'" and "search_token s p u \<noteq> []"
  shows "search_token s' p u = search_token s p u"
proof -
  from assms(1) obtain new where n: "auth_saml_token_table s' = auth_saml_token_table s @ new"
    "set (map token_key new) \<inter> set (token_keys s) = {}"
    unfolding tokens_backfilled_def by blast
  have "(p, u) \<in> set (token_keys s)"
    using assms(2) by (simp add: search_token_empty_iff)
  then have "(p, u) \<notin> set (map token_key new)"
    using n(2) by blast
  then have "filter (\<lambda>t. token_provider_id t = p \<and> token_user_id t = u) new = []"
    by (auto simp: filter_empty_conv token_key_def)
  then show ?thesis
    using n(1) by (simp add: search_token_def)
qed

lemma tokens_backfilled_prefix:
  assumes "tokens_backfilled s s'"
  shows "take (length (auth_saml_token_table s)) (auth_saml_token_table s') = auth_saml_token_table s"
  using assms unfolding tokens_backfilled_def by auto

lemma tokens_backfilled_present:
  assumes "tokens_backfilled s s'" and "search_token s p u \<noteq> []"
  shows "search_token s' p u \<noteq> []"
  using tokens_backfilled_search [OF assms] assms(2) by simp

lemma one_token_per_pair_search:
  assumes "one_token_per_pair s"
  shows "length (search_token s p u) \<le> 1"
proof -
  have "distinct (map token_key ts) \<Longrightarrow>
          length (filter (\<lambda>t. token_provider_id t = p \<and> token_user_id t = u) ts) \<le> 1" for ts
  proof (induction ts)
    case Nil
    show ?case by simp
  next
    case (Cons t ts)
    show ?case
    proof (cases "token_provider_id t = p \<and> token_user_id t = u")
      case True
      then have "(p, u) \<notin> set (map token_key ts)"
        using Cons.prems by (auto simp: token_key_def)
      then have "filter (\<lambda>t. token_provider_id t = p \<and> token_user_id t = u) ts = []"
        by (auto simp: filter_empty_conv token_key_def)
      then show ?thesis using True by simp
    next
      case False
      have "distinct (map token_key ts)" using Cons.prems by simp
      then show ?thesis using False Cons.IH by auto
    qed
  qed
  then show ?thesis
    using assms by (simp add: one_token_per_pair_def token_keys_def search_token_def)
qed

subsection \<open>The token backfill\<close>

lemma ensure_token_links_settings: "same_settings s (ensure_token_links r ls s)"
proof (induction ls arbitrary: s)
  case Nil
  show ?case by simp
next
  case (Cons l ls)
  show ?case
    using Cons.IH same_settings_trans create_token_settings by (simp del: create_token_settings) blast
qed

lemma ensure_token_links_step:
  "tokens_backfilled s
     (if search_token s (saml_provider_id l) r = [] then
        create_token \<lparr>token_user_id = r, token_provider_id = saml_provider_id l,
                      saml_access_token = None\<rparr> s
      else s)"
  by (simp add: tokens_backfilled_create)

lemma ensure_token_links_backfilled: "tokens_backfilled s (ensure_token_links r ls s)"
proof (induction ls arbitrary: s)
  case Nil
  show ?case by simp
next
  case (Cons l ls)
  show ?case
    unfolding ensure_token_links.simps
    by (rule tokens_backfilled_trans [OF ensure_token_links_step Cons.IH])
qed

lemma ensure_token_links_others:
  "res_users_table (ensure_token_links r ls s) = res_users_table s
   \<and> logger (ensure_token_links r ls s) = logger s"
  by (induction ls arbitrary: s) simp_all

lemma ensure_token_links_present:
  "l \<in> set ls \<Longrightarrow> search_token (ensure_token_links r ls s) (saml_provider_id l) r \<noteq> []"
proof (induction ls arbitrary: s)
  case Nil
  then show ?case by simp
next
  case (Cons a ls)
  let ?s1 = "if search_token s (saml_provider_id a) r = [] then
        create_token \<lparr>token_user_id = r, token_provider_id = saml_provider_id a,
                      saml_access_token = None\<rparr> s
      else s"
  show ?case
  proof (cases "l = a")
    case True
    have "search_token ?s1 (saml_provider_id a) r \<noteq> []"
      by (simp add: search_token_def)
    then show ?thesis
      using tokens_backfilled_present [OF ensure_token_links_backfilled] True by simp
  next
    case False
    then show ?thesis using Cons by simp
  qed
qed

lemma ensure_token_links_fixpoint:
  "(\<And>l. l \<in> set ls \<Longrightarrow> search_token s (saml_provider_id l) r \<noteq> []) \<Longrightarrow> ensure_token_links r ls s = s"
  by (induction ls arbitrary: s) simp_all

lemma ensure_token_links_saml_ids: "saml_ids (ensure_token_links r ls s) = saml_ids s"
  using ensure_token_links_settings [of s r ls]
  by (intro saml_ids_cong) (simp add: same_settings_def)

lemma ensure_token_records_settings: "same_settings s (ensure_token_records rs s)"
proof (induction rs arbitrary: s)
  case Nil
  show ?case by simp
next
  case (Cons r rs)
  show ?case
    unfolding ensure_token_records.simps
    by (rule same_settings_trans [OF ensure_token_links_settings Cons.IH])
qed

lemma ensure_token_records_backfilled: "tokens_backfilled s (ensure_token_records rs s)"
proof (induction rs arbitrary: s)
  case Nil
  show ?case by simp
next
  case (Cons r rs)
  show ?case
    unfolding ensure_token_records.simps
    by (rule tokens_backfilled_trans [OF ensure_token_links_backfilled Cons.IH])
qed

lemma ensure_token_records_others:
  "res_users_table (ensure_token_records rs s) = res_users_table s
   \<and> logger (ensure_token_records rs s) = logger s"
  by (induction rs arbitrary: s) (simp_all add: ensure_token_links_others)

lemma ensure_token_records_saml_ids: "saml_ids (ensure_token_records rs s) = saml_ids s"
  using ensure_token_records_settings [of s rs]
  by (intro saml_ids_cong) (simp add: same_settings_def)

lemma ensure_token_records_present:
  "r \<in> set rs \<Longrightarrow> l \<in> set (saml_ids s r) \<Longrightarrow>
     search_token (ensure_token_records rs s) (saml_provider_id l) r \<noteq> []"
proof (induction rs arbitrary: s)
  case Nil
  then show ?case by simp
next
  case (Cons a rs)
  let ?s1 = "ensure_token_links a (saml_ids s a) s"
  show ?case
  proof (cases "r = a")
    case True
    have "search_token ?s1 (saml_provider_id l) r \<noteq> []"
      using ensure_token_links_present Cons.prems(2) True by simp
    then show ?thesis
      using tokens_backfilled_present [OF ensure_token_records_backfilled] by simp
  next
    case False
    then have "r \<in> set rs" using Cons.prems(1) by simp
    moreover have "l \<in> set (saml_ids ?s1 r)"
      using Cons.prems(2) by (simp add: ensure_token_links_saml_ids)
    ultimately show ?thesis using Cons.IH by simp
  qed
qed

lemma ensure_token_records_fixpoint:
  "(\<And>r l. r \<in> set rs \<Longrightarrow> l \<in> set (saml_ids s r) \<Longrightarrow>
        search_token s (saml_provider_id l) r \<noteq> []) \<Longrightarrow>
   ensure_token_records rs s = s"
proof (induction rs arbitrary: s)
  case Nil
  show ?case by simp
next
  case (Cons a rs)
  have "ensure_token_links a (saml_ids s a) s = s"
    by (rule ensure_token_links_fixpoint) (simp add: Cons.prems)
  moreover have "ensure_token_records rs s = s"
    by (rule Cons.IH) (simp add: Cons.prems)
  ultimately show ?case by simp
qed

lemma ensure_saml_token_exists_settings: "same_settings s (ensure_saml_token_exists s self)"
  by (simp add: ensure_saml_token_exists_def ensure_token_records_settings)

lemma ensure_saml_token_exists_backfilled: "tokens_backfilled s (ensure_saml_token_exists s self)"
  by (simp add: ensure_saml_token_exists_def ensure_token_records_backfilled)

lemma ensure_saml_token_exists_others:
  "res_users_table (ensure_saml_token_exists s self) = res_users_table s
   \<and> logger (ensure_saml_token_exists s self) = logger s"
  by (simp add: ensure_saml_token_exists_def ensure_token_records_others)

lemma ensure_saml_token_exists_saml_ids: "saml_ids (ensure_saml_token_exists s self) = saml_ids s"
  by (simp add: ensure_saml_token_exists_def ensure_token_records_saml_ids)

lemma ensure_saml_token_exists_present:
  assumes "r \<in> set self" and "l \<in> set (saml_ids s r)"
  shows "search_token (ensure_saml_token_exists s self) (saml_provider_id l) r \<noteq> []"
proof -
  have "saml_ids s r \<noteq> []" using assms(2) by auto
  then have "r \<in> set (filter (\<lambda>r. saml_ids s r \<noteq> []) self)"
    using assms(1) by simp
  then show ?thesis
    unfolding ensure_saml_token_exists_def
    using ensure_token_records_present assms(2) by blast
qed

lemma ensure_saml_token_exists_twice:
  "ensure_saml_token_exists (ensure_saml_token_exists s self) self = ensure_saml_token_exists s self"
proof -
  let ?s1 = "ensure_saml_token_exists s self"
  let ?rs = "filter (\<lambda>r. saml_ids s r \<noteq> []) self"
  have ids: "saml_ids ?s1 = saml_ids s"
    by (rule ensure_saml_token_exists_saml_ids)
  have "ensure_token_records ?rs ?s1 = ?s1"
  proof (rule ensure_token_records_fixpoint)
    fix r l
    assume "r \<in> set ?rs" and "l \<in> set (saml_ids ?s1 r)"
    then show "search_token ?s1 (saml_provider_id l) r \<noteq> []"
      using ensure_saml_token_exists_present [of r self l s] ids by simp
  qed
  then show ?thesis
    by (simp add: ensure_saml_token_exists_def [of ?s1] ids)
qed

lemma ensure_saml_token_exists_new:
  "list_all (\<lambda>t. saml_access_token t = None
                 \<and> search_token s (token_provider_id t) (token_user_id t) = [])
     (drop (length (auth_saml_token_table s))
        (auth_saml_token_table (ensure_saml_token_exists s self)))"
proof -
  obtain new where n: "auth_saml_token_table (ensure_saml_token_exists s self) =
        auth_saml_token_table s @ new"
      "list_all (\<lambda>t. saml_access_token t = None) new"
      "set (map token_key new) \<inter> set (token_keys s) = {}"
    using ensure_saml_token_exists_backfilled [of s self]
    unfolding tokens_backfilled_def by blast
  have "t \<in> set new \<Longrightarrow> search_token s (token_provider_id t) (token_user_id t) = []" for t
  proof -
    assume "t \<in> set new"
    then have "token_key t \<notin> set (token_keys s)" using n(3) by auto
    then show ?thesis by (simp add: search_token_empty_iff token_key_def)
  qed
  then show ?thesis
    using n(1) n(2) by (simp add: list_all_iff)
qed

subsection \<open>What writing users keeps, and which errors it raises\<close>

lemma kept_refl [simp]: "kept s s"
  by (simp add: kept_def)

lemma kept_trans: "kept s s1 \<Longrightarrow> kept s1 s2 \<Longrightarrow> kept s s2"
  unfolding kept_def using same_settings_trans tokens_backfilled_trans by metis

lemma kept_update_users: "kept s (update_users f ids s)"
  by (simp add: kept_def update_users_def same_settings_def tokens_backfilled_cong)

lemma kept_ensure: "kept s (ensure_saml_token_exists s self)"
  by (simp add: kept_def ensure_saml_token_exists_settings ensure_saml_token_exists_backfilled
      ensure_saml_token_exists_others)

lemma filtered_Inl: "filtered p xs = Inl e \<Longrightarrow> \<exists>x \<in> set xs. p x = Inl e"
  by (induction xs arbitrary: e) (auto split: sum.splits)

lemma filtered_Inr: "filtered p xs = Inr ys \<Longrightarrow> ys = filter (\<lambda>x. p x = Inr True) xs"
  by (induction xs arbitrary: ys) (auto split: sum.splits if_splits)

lemma browse_not_denied: "browse s i \<noteq> Inl AccessDenied"
  by (simp add: browse_def split: option.splits)

lemma str2bool_not_denied: "str2bool x \<noteq> Inl AccessDenied"
  by (simp add: str2bool_def Let_def)

lemma str2bool_not_validation: "str2bool x \<noteq> Inl (ValidationError logins)"
  by (simp add: str2bool_def Let_def)

lemma allow_not_denied: "allow_saml_and_password s \<noteq> Inl AccessDenied"
  by (simp add: allow_saml_and_password_def str2bool_not_denied)

lemma self_id_not_denied: "self_id xs \<noteq> Inl AccessDenied"
  by (cases xs rule: self_id.cases) simp_all

lemma set_password_test_not_denied: "set_password_test s self i \<noteq> Inl AccessDenied"
  using self_id_not_denied [of self] browse_not_denied [of s i]
  by (auto simp: set_password_test_def split: sum.splits)

lemma password_is_False_not_denied: "password_is_False s i \<noteq> Inl AccessDenied"
  using browse_not_denied [of s i]
  by (auto simp: password_is_False_def split: sum.splits)

lemma autoremove_test_not_denied: "autoremove_test s i \<noteq> Inl AccessDenied"
  using browse_not_denied [of s i]
  by (auto simp: autoremove_test_def split: sum.splits)

lemma mapped_login_not_denied: "mapped_login s xs \<noteq> Inl AccessDenied"
  using browse_not_denied
  by (induction xs) (auto split: sum.splits)

lemma kept_base_set_password: "kept s (base_set_password s ids)"
  by (simp add: base_set_password_def kept_update_users)

lemma set_password_store_effect:
  "kept s (snd (set_password_store s self)) \<and> fst (set_password_store s self) \<noteq> Inl AccessDenied"
proof (cases "filtered (password_is_False s) self")
  case (Inl e)
  then show ?thesis
    using filtered_Inl [of "password_is_False s" self AccessDenied] password_is_False_not_denied
    by (auto simp: set_password_store_def)
next
  case (Inr blank)
  have "kept s (update_users (\<lambda>u. u\<lparr>password_column := None, password_cache := None\<rparr>) blank
          (base_set_password s (filter (\<lambda>i. i \<notin> set blank) self)))"
    by (rule kept_trans [OF kept_base_set_password kept_update_users])
  then show ?thesis
    using Inr by (simp add: set_password_store_def Let_def)
qed

lemma set_password_effect:
  "kept s (snd (set_password s self)) \<and> fst (set_password s self) \<noteq> Inl AccessDenied"
  using filtered_Inl [of "set_password_test s self" self AccessDenied]
    set_password_test_not_denied allow_not_denied [of s] mapped_login_not_denied
    set_password_store_effect [of s self]
  by (auto simp: set_password_def split: sum.splits)

lemma base_write_effect:
  "kept s (snd (base_write s self vs)) \<and> fst (base_write s self vs) \<noteq> Inl AccessDenied"
proof -
  let ?s1 = "update_users (apply_vals vs) self s"
  have k1: "kept s ?s1" by (rule kept_update_users)
  have k2: "kept ?s1 (snd (set_password ?s1 self))"
       "fst (set_password ?s1 self) \<noteq> Inl AccessDenied"
    using set_password_effect by blast+
  have k3: "kept s (snd (set_password ?s1 self))"
    by (rule kept_trans [OF k1 k2(1)])
  show ?thesis
    using k1 k2(2) k3
    by (auto simp: base_write_def Let_def split: sum.splits prod.splits)
qed

lemma write_True:
  "write_users True s self vs =
     (case base_write s self vs of
        (Inl e, s1) \<Rightarrow> (Inl e, s1)
      | (Inr result, s1) \<Rightarrow> (Inr result, ensure_saml_token_exists s1 self))"
  by (simp add: write_users.simps autoremove_password_if_saml.simps split: prod.splits sum.splits)

lemma write_True_effect:
  "kept s (snd (write_users True s self vs)) \<and> fst (write_users True s self vs) \<noteq> Inl AccessDenied"
proof -
  obtain r s1 where b: "base_write s self vs = (r, s1)" by (cases "base_write s self vs")
  have k1: "kept s s1" "r \<noteq> Inl AccessDenied"
    using base_write_effect [of s self vs] b by simp_all
  show ?thesis
  proof (cases r)
    case (Inl e)
    then show ?thesis using k1 b by (simp add: write_True)
  next
    case (Inr v)
    then show ?thesis
      using b kept_trans [OF k1(1) kept_ensure] by (simp add: write_True)
  qed
qed

lemma autoremove_True: "autoremove_password_if_saml True s self = (Inr (), s)"
  by (simp add: autoremove_password_if_saml.simps)

lemma autoremove_False:
  "autoremove_password_if_saml False s self =
     (case allow_saml_and_password s of
        Inl e \<Rightarrow> (Inl e, s)
      | Inr allow \<Rightarrow>
          if allow then (Inr (), s)
          else (case filtered (autoremove_test s) self of
                  Inl e \<Rightarrow> (Inl e, s)
                | Inr to_remove_password \<Rightarrow>
                    if to_remove_password = [] then (Inr (), s)
                    else (case write_users True s to_remove_password
                                 [(''password'', autoremove_password_if_saml_gen_password s)] of
                            (Inl e, s1) \<Rightarrow> (Inl e, s1)
                          | (Inr r, s1) \<Rightarrow> (Inr (), s1))))"
  by (simp add: autoremove_password_if_saml.simps)

lemma autoremove_effect:
  "kept s (snd (autoremove_password_if_saml c s self))
   \<and> fst (autoremove_password_if_saml c s self) \<noteq> Inl AccessDenied"
proof (cases c)
  case True
  then show ?thesis by (simp add: autoremove_True)
next
  case False
  have w: "\<And>ids vs. kept s (snd (write_users True s ids vs))"
          "\<And>ids vs. fst (write_users True s ids vs) \<noteq> Inl AccessDenied"
    using write_True_effect by blast+
  have f: "filtered (autoremove_test s) self \<noteq> Inl AccessDenied"
    using filtered_Inl [of "autoremove_test s" self AccessDenied] autoremove_test_not_denied
    by blast
  show ?thesis
  proof (cases "allow_saml_and_password s")
    case (Inl e)
    then show ?thesis using False allow_not_denied [of s] by (simp add: autoremove_False)
  next
    case allow: (Inr allow)
    show ?thesis
    proof (cases "filtered (autoremove_test s) self")
      case (Inl e)
      then show ?thesis using False allow f by (simp add: autoremove_False)
    next
      case (Inr ids)
      obtain r s1 where wr: "write_users True s ids
          [(''password'', autoremove_password_if_saml_gen_password s)] = (r, s1)"
        by (cases "write_users True s ids [(''password'', autoremove_password_if_saml_gen_password s)]")
      have "kept s s1" "r \<noteq> Inl AccessDenied"
        using w(1) [of ids "[(''password'', autoremove_password_if_saml_gen_password s)]"]
          w(2) [of ids "[(''password'', autoremove_password_if_saml_gen_password s)]"] wr
        by simp_all
      then show ?thesis
        using False allow Inr wr by (cases r) (simp_all add: autoremove_False)
    qed
  qed
qed

lemma write_effect:
  "kept s (snd (write_users c s self vs)) \<and> fst (write_users c s self vs) \<noteq> Inl AccessDenied"
proof -
  obtain r s1 where b: "base_write s self vs = (r, s1)" by (cases "base_write s self vs")
  have k1: "kept s s1" "r \<noteq> Inl AccessDenied"
    using base_write_effect [of s self vs] b by simp_all
  show ?thesis
  proof (cases r)
    case (Inl e)
    then show ?thesis using k1 b by (simp add: write_users.simps)
  next
    case (Inr v)
    obtain r2 s2 where a: "autoremove_password_if_saml c s1 self = (r2, s2)"
      by (cases "autoremove_password_if_saml c s1 self")
    have k2: "kept s1 s2" "r2 \<noteq> Inl AccessDenied"
      using autoremove_effect [of s1 c self] a by simp_all
    have k3: "kept s s2" by (rule kept_trans [OF k1(1) k2(1)])
    show ?thesis
    proof (cases r2)
      case (Inl e)
      then show ?thesis using Inr b a k2 k3 by (simp add: write_users.simps)
    next
      case inr2: (Inr u)
      then show ?thesis
        using Inr b a kept_trans [OF k3 kept_ensure] by (simp add: write_users.simps)
    qed
  qed
qed

subsection \<open>Reading users after an update\<close>

lemma find_update_users:
  assumes "\<And>u. user_ident (f u) = user_ident u"
  shows "find (\<lambda>u. user_ident u = i) (map (\<lambda>u. if user_ident u \<in> set ids then f u else u) us) =
           map_option (\<lambda>u. if i \<in> set ids then f u else u) (find (\<lambda>u. user_ident u = i) us)"
  using assms by (induction us) auto

lemma browse_update_users:
  assumes "\<And>u. user_ident (f u) = user_ident u"
  shows "browse (update_users f ids s) i =
           (case browse s i of
              Inl e \<Rightarrow> Inl e
            | Inr u \<Rightarrow> Inr (if i \<in> set ids then f u else u))"
  using find_update_users [of f i ids "res_users_table s", OF assms]
  by (simp add: browse_def update_users_def split: option.splits)

lemma user_ident_apply_vals [simp]: "user_ident (apply_vals vs u) = user_ident u"
  by (simp add: apply_vals_def)

lemma same_settings_update_users: "same_settings s (update_users f ids s)"
  using kept_update_users by (simp add: kept_def)

lemma allow_same_settings:
  "same_settings s s' \<Longrightarrow> allow_saml_and_password s' = allow_saml_and_password s"
  by (simp add: same_settings_def allow_saml_and_password_def get_param_def)

lemma allowed_same_settings:
  "same_settings s s' \<Longrightarrow> saml_allowed_user_ids s' = saml_allowed_user_ids s"
  by (simp add: same_settings_def saml_allowed_user_ids_def)

lemma saml_ids_same_settings: "same_settings s s' \<Longrightarrow> saml_ids s' = saml_ids s"
  by (rule saml_ids_cong) (simp add: same_settings_def)

lemma gen_password_same_settings:
  "same_settings s s' \<Longrightarrow>
     autoremove_password_if_saml_gen_password s' = autoremove_password_if_saml_gen_password s"
  by (simp add: same_settings_def autoremove_password_if_saml_gen_password_def)

lemma browse_ensure: "browse (ensure_saml_token_exists s self) i = browse s i"
  using ensure_saml_token_exists_others [of s self] by (simp add: browse_def)

subsection \<open>The password of a single user\<close>

lemma set_password_conflict_single:
  assumes "allow_saml_and_password s = Inr False"
    and "i \<notin> saml_allowed_user_ids s"
    and "saml_ids s i \<noteq> []"
    and "browse s i = Inr u"
    and "truthy (password u)"
  shows "set_password s [i] = (Inl (ValidationError [login u]), s)"
proof -
  have "set_password_test s [i] i = Inr True"
    using assms(2-5) by (simp add: set_password_test_def)
  then have "filtered (set_password_test s [i]) [i] = Inr [i]"
    by simp
  then show ?thesis
    using assms(1,4) by (simp add: set_password_def)
qed

lemma write_password_conflict_single:
  assumes "allow_saml_and_password s = Inr False"
    and "i \<notin> saml_allowed_user_ids s"
    and "saml_ids s i \<noteq> []"
    and "browse s i = Inr u"
    and "map_of vs ''password'' = Some (Some pw)"
    and "pw \<noteq> []"
  shows "fst (write_users c s [i] vs) = Inl (ValidationError [login (apply_vals vs u)])"
proof -
  let ?s1 = "update_users (apply_vals vs) [i] s"
  have ss: "same_settings s ?s1" by (rule same_settings_update_users)
  have h1: "allow_saml_and_password ?s1 = Inr False"
    using allow_same_settings [OF ss] assms(1) by simp
  have h2: "i \<notin> saml_allowed_user_ids ?s1"
    using allowed_same_settings [OF ss] assms(2) by simp
  have h3: "saml_ids ?s1 i \<noteq> []"
    using saml_ids_same_settings [OF ss] assms(3) by simp
  have h4: "browse ?s1 i = Inr (apply_vals vs u)"
    using assms(4) by (simp add: browse_update_users)
  have h5: "truthy (password (apply_vals vs u))"
    using assms(5,6) by (simp add: apply_vals_def truthy_def password_def)
  have "set_password ?s1 [i] = (Inl (ValidationError [login (apply_vals vs u)]), ?s1)"
    by (rule set_password_conflict_single [OF h1 h2 h3 h4 h5])
  then have "base_write s [i] vs = (Inl (ValidationError [login (apply_vals vs u)]), ?s1)"
    using assms(5) by (simp add: base_write_def)
  then show ?thesis
    by (simp add: write_users.simps)
qed

lemma set_password_exempt_single:
  assumes "i \<in> saml_allowed_user_ids s"
  shows "fst (set_password s [i]) \<noteq> Inl (ValidationError logins)"
proof -
  have t: "set_password_test s [i] i = Inr False"
    using assms by (simp add: set_password_test_def)
  have st: "fst (set_password_store s [i]) \<noteq> Inl (ValidationError logins)"
    by (auto simp: set_password_store_def password_is_False_def browse_def Let_def
        split: sum.splits option.splits)
  show ?thesis
    using t st str2bool_not_validation [of "get_param s ''auth_saml.allow_saml_uid_and_internal_password'' ''False''" logins]
    by (auto simp: set_password_def allow_saml_and_password_def split: sum.splits)
qed

lemma autoremove_test_superuser: "autoremove_test s SUPERUSER_ID = Inr False"
  by (simp add: autoremove_test_def)

subsection \<open>The cache of passwords\<close>

lemma password_at_rest:
  assumes "at_rest s" and "browse s i = Inr u"
  shows "password u = Some []"
proof -
  have "find (\<lambda>u. user_ident u = i) (res_users_table s) = Some u"
    using assms(2) by (simp add: browse_def split: option.splits)
  then have "u \<in> set (res_users_table s)"
    by (auto simp: find_Some_iff)
  then have "password_cache u = None"
    using assms(1) by (simp add: at_rest_def list_all_iff)
  then show ?thesis by (simp add: password_def)
qed

lemma autoremove_test_at_rest:
  assumes "at_rest s"
  shows "autoremove_test s i = Inr False \<or> autoremove_test s i = Inl MissingError"
proof (cases "browse s i")
  case (Inl e)
  then have "e = MissingError"
    by (simp add: browse_def split: option.splits)
  then show ?thesis using Inl by (simp add: autoremove_test_def)
next
  case (Inr u)
  then show ?thesis
    using password_at_rest [OF assms Inr] by (simp add: autoremove_test_def truthy_def)
qed

lemma filtered_none:
  "(\<And>x. x \<in> set xs \<Longrightarrow> p x = Inr False \<or> p x = Inl e) \<Longrightarrow>
     filtered p xs = Inr [] \<or> filtered p xs = Inl e"
proof (induction xs)
  case Nil
  show ?case by simp
next
  case (Cons a xs)
  have tl: "filtered p xs = Inr [] \<or> filtered p xs = Inl e"
    by (rule Cons.IH) (simp add: Cons.prems)
  have hd: "p a = Inr False \<or> p a = Inl e"
    by (rule Cons.prems) simp
  show ?case
    using hd tl by auto
qed

lemma autoremove_at_rest:
  assumes "at_rest s"
  shows "snd (autoremove_password_if_saml c s self) = s"
    and "fst (autoremove_password_if_saml c s self) = Inr ()
         \<or> fst (autoremove_password_if_saml c s self) = Inl MissingError
         \<or> fst (autoremove_password_if_saml c s self) = Inl ValueError"
proof -
  have f: "filtered (autoremove_test s) self = Inr []
           \<or> filtered (autoremove_test s) self = Inl MissingError"
    by (rule filtered_none) (rule autoremove_test_at_rest [OF assms])
  have a: "allow_saml_and_password s = Inl ValueError \<or> (\<exists>b. allow_saml_and_password s = Inr b)"
    by (simp add: allow_saml_and_password_def str2bool_def Let_def)
  show "snd (autoremove_password_if_saml c s self) = s"
    using f by (cases c) (auto simp: autoremove_True autoremove_False split: sum.splits)
  show "fst (autoremove_password_if_saml c s self) = Inr ()
         \<or> fst (autoremove_password_if_saml c s self) = Inl MissingError
         \<or> fst (autoremove_password_if_saml c s self) = Inl ValueError"
    using f a by (cases c) (auto simp: autoremove_True autoremove_False split: sum.splits)
qed

lemma set_password_store_at_rest:
  assumes "set_password_store s self = (Inr x, s')"
    and "list_all (\<lambda>u. user_ident u \<in> set self \<or> password_cache u = None) (res_users_table s)"
  shows "at_rest s'"
proof (cases "filtered (password_is_False s) self")
  case (Inl e)
  then show ?thesis using assms(1) by (simp add: set_password_store_def)
next
  case (Inr blank)
  then have "s' = update_users (\<lambda>u. u\<lparr>password_column := None, password_cache := None\<rparr>) blank
          (base_set_password s (filter (\<lambda>i. i \<notin> set blank) self))"
    using assms(1) by (simp add: set_password_store_def Let_def)
  then show ?thesis
    using assms(2)
    by (auto simp: at_rest_def list_all_iff update_users_def base_set_password_def)
qed

lemma set_password_at_rest:
  assumes "set_password s self = (Inr x, s')"
    and "list_all (\<lambda>u. user_ident u \<in> set self \<or> password_cache u = None) (res_users_table s)"
  shows "at_rest s'"
proof -
  have "set_password_store s self = (Inr x, s')"
    using assms(1)
    by (auto simp: set_password_def split: sum.splits if_splits)
  then show ?thesis by (rule set_password_store_at_rest [OF _ assms(2)])
qed

lemma base_write_at_rest:
  assumes "at_rest s" and "base_write s self vs = (Inr r, s')"
  shows "at_rest s'"
proof (cases "map_of vs ''password''")
  case None
  then have "s' = update_users (apply_vals vs) self s"
    using assms(2) by (simp add: base_write_def)
  then show ?thesis
    using assms(1) None
    by (auto simp: at_rest_def list_all_iff update_users_def apply_vals_def)
next
  case (Some v)
  let ?s1 = "update_users (apply_vals vs) self s"
  obtain x where sp: "set_password ?s1 self = (Inr x, s')"
    using assms(2) Some
    by (auto simp: base_write_def Let_def split: prod.splits sum.splits)
  have "list_all (\<lambda>u. user_ident u \<in> set self \<or> password_cache u = None)
          (res_users_table ?s1)"
    using assms(1) by (auto simp: at_rest_def list_all_iff update_users_def)
  then show ?thesis by (rule set_password_at_rest [OF sp])
qed

lemma at_rest_ensure:
  "at_rest s \<Longrightarrow> at_rest (ensure_saml_token_exists s self)"
  using ensure_saml_token_exists_others [of s self] by (simp add: at_rest_def)

lemma write_users_at_rest:
  assumes "at_rest s" and "write_users c s self vs = (Inr r, s')"
  shows "at_rest s'"
proof -
  obtain r1 s1 where b: "base_write s self vs = (r1, s1)" by (cases "base_write s self vs")
  obtain r2 s2 where a: "autoremove_password_if_saml c s1 self = (r2, s2)"
    by (cases "autoremove_password_if_saml c s1 self")
  obtain v where r1: "r1 = Inr v"
    using assms(2) b by (cases r1) (simp_all add: write_users.simps)
  have r1s: "at_rest s1"
    using base_write_at_rest [OF assms(1)] b r1 by simp
  have "s2 = s1"
    using autoremove_at_rest(1) [OF r1s, of c self] a by simp
  then have "s' = ensure_saml_token_exists s1 self"
    using assms(2) b a r1 by (cases r2) (simp_all add: write_users.simps)
  then show ?thesis
    using at_rest_ensure [OF r1s] by simp
qed

text \<open>
  In a state at rest, a write of values that do not include the password leaves the
  column of every user as it is, whatever the user's links and the flag.
\<close>

lemma write_users_keeps_password_column:
  assumes "at_rest s" and "map_of vs ''password'' = None"
    and "browse s i = Inr u"
  shows "\<exists>u'. browse (snd (write_users c s self vs)) i = Inr u'
           \<and> password_column u' = password_column u"
proof -
  let ?s1 = "update_users (apply_vals vs) self s"
  have b: "base_write s self vs = (Inr True, ?s1)"
    using assms(2) by (simp add: base_write_def)
  have r1: "at_rest ?s1"
    by (rule base_write_at_rest [OF assms(1) b])
  obtain r2 s2 where a: "autoremove_password_if_saml c ?s1 self = (r2, s2)"
    by (cases "autoremove_password_if_saml c ?s1 self")
  have s2: "s2 = ?s1"
    using autoremove_at_rest(1) [OF r1, of c self] a by simp
  have "snd (write_users c s self vs) = ?s1
        \<or> snd (write_users c s self vs) = ensure_saml_token_exists ?s1 self"
    using b a s2 by (cases r2) (simp_all add: write_users.simps)
  then have "browse (snd (write_users c s self vs)) i = browse ?s1 i"
    by (auto simp: browse_ensure)
  then show ?thesis
    using assms(3) by (simp add: browse_update_users apply_vals_def)
qed

subsection \<open>Sign-in\<close>

lemma signin_token_settings: "same_settings s (signin_token s p u r)"
  by (simp add: signin_token_def same_settings_def create_token_def)

lemma signin_token_users: "res_users_table (signin_token s p u r) = res_users_table s"
  by (simp add: signin_token_def create_token_def)

lemma signin_token_keys:
  "token_keys (signin_token s p u r) =
     (if search_token s p u \<noteq> [] then token_keys s else token_keys s @ [(p, u)])"
  by (simp add: signin_token_def token_keys_def token_key_def create_token_def comp_def if_distrib
      cong: if_cong)

lemma signin_token_one_per_pair:
  "one_token_per_pair s \<Longrightarrow> one_token_per_pair (signin_token s p u r)"
  by (simp add: one_token_per_pair_def signin_token_keys search_token_empty_iff)

lemma signin_token_search_present:
  assumes "search_token s p u \<noteq> []"
  shows "search_token (signin_token s p u r) p u =
           map (\<lambda>t. t\<lparr>saml_access_token := Some r\<rparr>) (search_token s p u)"
proof -
  have "filter (\<lambda>t. token_provider_id t = p \<and> token_user_id t = u)
          (map (\<lambda>t. if token_provider_id t = p \<and> token_user_id t = u
                     then t\<lparr>saml_access_token := Some r\<rparr> else t) ts) =
        map (\<lambda>t. t\<lparr>saml_access_token := Some r\<rparr>)
          (filter (\<lambda>t. token_provider_id t = p \<and> token_user_id t = u) ts)" for ts
    by (induction ts) simp_all
  then show ?thesis
    using assms by (simp add: signin_token_def search_token_def)
qed

lemma signin_token_search_absent:
  assumes "search_token s p u = []"
  shows "search_token (signin_token s p u r) p u =
           [\<lparr>token_user_id = u, token_provider_id = p, saml_access_token = Some r\<rparr>]"
  using assms by (simp add: signin_token_def search_token_def create_token_def)

lemma signin_token_value:
  "search_token (signin_token s p u r) p u \<noteq> []
   \<and> (\<forall>t \<in> set (search_token (signin_token s p u r) p u). saml_access_token t = Some r)"
proof (cases "search_token s p u = []")
  case True
  then show ?thesis by (simp add: signin_token_search_absent)
next
  case False
  then show ?thesis by (auto simp: signin_token_search_present)
qed

lemma signin_token_single:
  assumes "one_token_per_pair s"
  shows "search_token (signin_token s p u r) p u =
           [\<lparr>token_user_id = u, token_provider_id = p, saml_access_token = Some r\<rparr>]"
proof (cases "search_token s p u = []")
  case True
  then show ?thesis by (rule signin_token_search_absent)
next
  case False
  have "length (search_token s p u) \<le> 1"
    by (rule one_token_per_pair_search [OF assms])
  then obtain t where t: "search_token s p u = [t]"
    using False by (cases "search_token s p u") auto
  then have "t \<in> set (search_token s p u)" by simp
  then have "token_provider_id t = p" "token_user_id t = u"
    by (simp_all add: search_token_def)
  then have "t\<lparr>saml_access_token := Some r\<rparr> =
               \<lparr>token_user_id = u, token_provider_id = p, saml_access_token = Some r\<rparr>"
    by simp
  then show ?thesis
    using False t by (simp add: signin_token_search_present)
qed

lemma signin_token_length:
  "length (auth_saml_token_table (signin_token s p u r)) =
     (if search_token s p u \<noteq> [] then length (auth_saml_token_table s)
      else length (auth_saml_token_table s) + 1)"
  by (simp add: signin_token_def create_token_def)

lemma signin_token_logger:
  "logger (signin_token s p u r) =
     (if search_token s p u \<noteq> [] then logger s else logger s @ [''Creating auth_saml.token''])"
  by (simp add: signin_token_def create_token_def)

lemma signin_search_user_cases:
  "signin_search_user s p uid =
     (case filter (\<lambda>l. saml_uid l = uid \<and> saml_provider_id l = p) (res_users_saml_table s) of
        [] \<Rightarrow> []
      | l # ls \<Rightarrow> [user_id l])"
  by (simp add: signin_search_user_def split: list.splits)

lemma signin_search_user_first:
  "filter (\<lambda>l. saml_uid l = uid \<and> saml_provider_id l = provider) (res_users_saml_table s) = l # ls
   \<Longrightarrow> signin_search_user s provider uid = [user_id l]"
  by (simp add: signin_search_user_def)

lemma signin_search_user_length: "length (signin_search_user s p uid) \<le> 1"
  by (simp add: signin_search_user_def)

lemma read_login_state: "snd (read_login s u) = s"
  by (simp add: read_login_def split: sum.splits)

lemma read_login_not_denied: "fst (read_login s u) \<noteq> Inl AccessDenied"
  using browse_not_denied [of s u] by (auto simp: read_login_def split: sum.splits)

lemma read_login_Inr:
  "read_login s u = (Inr lg, s') \<Longrightarrow> \<exists>usr. browse s u = Inr usr \<and> login usr = lg \<and> s' = s"
  by (auto simp: read_login_def split: sum.splits)

lemma auth_saml_signin_found:
  assumes "validation_user_id v = Some uid" and "signin_search_user s p uid = [user]"
  shows "kept (signin_token s p user r) (snd (auth_saml_signin c s p v r))
         \<and> fst (auth_saml_signin c s p v r) \<noteq> Inl AccessDenied
         \<and> (\<forall>lg. fst (auth_saml_signin c s p v r) = Inr lg \<longrightarrow>
               (\<exists>usr. browse (snd (auth_saml_signin c s p v r)) user = Inr usr \<and> login usr = lg))"
proof -
  let ?s1 = "signin_token s p user r"
  have direct: "kept ?s1 (snd (read_login ?s1 user))
         \<and> fst (read_login ?s1 user) \<noteq> Inl AccessDenied
         \<and> (\<forall>lg. fst (read_login ?s1 user) = Inr lg \<longrightarrow>
               (\<exists>usr. browse (snd (read_login ?s1 user)) user = Inr usr \<and> login usr = lg))"
    using read_login_not_denied [of ?s1 user]
    by (auto simp: read_login_def split: sum.splits)
  show ?thesis
  proof (cases "mapped_attrs v")
    case None
    then show ?thesis using assms direct by (simp add: auth_saml_signin_def)
  next
    case (Some attrs)
    show ?thesis
    proof (cases "attrs = []")
      case True
      then show ?thesis using assms direct Some by (simp add: auth_saml_signin_def)
    next
      case False
      obtain wr s2 where w: "write_users c ?s1 [user] attrs = (wr, s2)"
        by (cases "write_users c ?s1 [user] attrs")
      have k: "kept ?s1 s2" "wr \<noteq> Inl AccessDenied"
        using write_effect [of ?s1 c "[user]" attrs] w by simp_all
      show ?thesis
      proof (cases wr)
        case (Inl e)
        then show ?thesis
          using assms Some False w k by (simp add: auth_saml_signin_def)
      next
        case (Inr b)
        have eq: "auth_saml_signin c s p v r = read_login s2 user"
          using assms Some False w Inr by (simp add: auth_saml_signin_def)
        show ?thesis
          unfolding eq using k(1) read_login_not_denied [of s2 user]
          by (auto simp: read_login_def split: sum.splits)
      qed
    qed
  qed
qed

lemma auth_saml_signin_not_found:
  assumes "validation_user_id v = Some uid" and "signin_search_user s p uid = []"
  shows "auth_saml_signin c s p v r = (Inl AccessDenied, s)"
  using assms by (simp add: auth_saml_signin_def)

lemma auth_saml_signin_one_per_pair:
  assumes "one_token_per_pair s"
  shows "one_token_per_pair (snd (auth_saml_signin c s p v r))"
proof (cases "validation_user_id v")
  case None
  then show ?thesis using assms by (simp add: auth_saml_signin_def)
next
  case (Some uid)
  show ?thesis
  proof (cases "signin_search_user s p uid")
    case Nil
    then show ?thesis using assms Some by (simp add: auth_saml_signin_def)
  next
    case (Cons user rest)
    then have one: "signin_search_user s p uid = [user]"
      using signin_search_user_length [of s p uid] by simp
    have "kept (signin_token s p user r) (snd (auth_saml_signin c s p v r))"
      using auth_saml_signin_found [OF Some one] by blast
    then show ?thesis
      using tokens_backfilled_distinct signin_token_one_per_pair [OF assms]
      by (auto simp: kept_def)
  qed
qed

lemma repeated_signin_one_per_pair:
  "one_token_per_pair s \<Longrightarrow> one_token_per_pair (repeated_signin c s requests)"
proof (induction requests arbitrary: s)
  case Nil
  then show ?case by simp
next
  case (Cons req requests)
  obtain p v r where req: "req = (p, v, r)" by (cases req)
  show ?case
    unfolding req repeated_signin.simps
    by (rule Cons.IH) (rule auth_saml_signin_one_per_pair [OF Cons.prems])
qed

lemma auth_saml_Inr:
  assumes "auth_saml validate_auth_response ctx s provider saml_response base_url = (Inr res, s')"
  shows "\<exists>v lg. validate_auth_response provider saml_response base_url = Inr v
           \<and> auth_saml_signin ctx s provider v saml_response = (Inr (Some lg), s')
           \<and> res = (dbname s', lg, saml_response)"
proof -
  obtain v where v: "validate_auth_response provider saml_response base_url = Inr v"
    using assms by (cases "validate_auth_response provider saml_response base_url")
      (simp_all add: auth_saml_def auth_saml_validate_def)
  obtain r1 s1 where r1: "auth_saml_signin ctx s provider v saml_response = (r1, s1)"
    by (cases "auth_saml_signin ctx s provider v saml_response")
  show ?thesis
    using assms v r1
    by (auto simp: auth_saml_def auth_saml_validate_def split: if_splits sum.splits option.splits)
qed

lemma example_signin_alice:
  "auth_saml (example_validate ''abc'') False example_env 1 ''blob'' None =
     (Inr (''prod'', ''alice'', ''blob''), example_env_signed_in 7)"
  by code_simp

lemma str2bool_False: "str2bool ''False'' = Inr False"
  by code_simp

section \<open>The coexistence flag\<close>

text \<open>
  Claim C10. When the parameter \<open>auth_saml.allow_saml_uid_and_internal_password\<close> is
  absent from the configuration, \<open>_allow_saml_and_password\<close> returns false: a password
  and a SAML link may not coexist unless the flag is set.
\<close>

theorem allow_saml_and_password_absent:
  assumes "map_of (ir_config_parameter s)
             ''auth_saml.allow_saml_uid_and_internal_password'' = None"
  shows "allow_saml_and_password s = Inr False"
  using assms by (simp add: allow_saml_and_password_def get_param_def str2bool_False)

theorem allow_saml_and_password_absent_witness:
  "map_of (ir_config_parameter example_env)
     ''auth_saml.allow_saml_uid_and_internal_password'' = None
   \<and> allow_saml_and_password example_env = Inr False"
proof -
  have h: "map_of (ir_config_parameter example_env)
             ''auth_saml.allow_saml_uid_and_internal_password'' = None"
    by (simp add: example_env_def)
  show ?thesis
    using h allow_saml_and_password_absent [OF h] by simp
qed

section \<open>Resolving the subject of a sign-in\<close>

text \<open>
  Claim C1, as amended. The search for the link of a subject at a provider is limited to
  one record. With no matching link the sign-in is denied and the state is untouched. With
  one or more matching links the sign-in goes on with the user of the first of them,
  however many follow: it is not denied, that user's token for the provider carries the
  response, and the only line the step can log is the one for a token it creates.
\<close>

theorem signin_resolves_first_match:
  assumes "validation_user_id v = Some uid"
  shows "(filter (\<lambda>l. saml_uid l = uid \<and> saml_provider_id l = provider)
            (res_users_saml_table s) = [] \<longrightarrow>
          auth_saml_signin ctx s provider v saml_response = (Inl AccessDenied, s))
       \<and> (filter (\<lambda>l. saml_uid l = uid \<and> saml_provider_id l = provider)
            (res_users_saml_table s) = l # ls \<longrightarrow>
          signin_search_user s provider uid = [user_id l]
          \<and> fst (auth_saml_signin ctx s provider v saml_response) \<noteq> Inl AccessDenied
          \<and> search_token (snd (auth_saml_signin ctx s provider v saml_response))
               provider (user_id l) \<noteq> []
          \<and> list_all (\<lambda>t. saml_access_token t = Some saml_response)
               (search_token (snd (auth_saml_signin ctx s provider v saml_response))
                  provider (user_id l))
          \<and> logger (snd (auth_saml_signin ctx s provider v saml_response)) =
               (if search_token s provider (user_id l) \<noteq> [] then logger s
                else logger s @ [''Creating auth_saml.token'']))"
proof (intro conjI impI)
  assume "filter (\<lambda>l. saml_uid l = uid \<and> saml_provider_id l = provider)
            (res_users_saml_table s) = []"
  then have "signin_search_user s provider uid = []"
    by (simp add: signin_search_user_def)
  then show "auth_saml_signin ctx s provider v saml_response = (Inl AccessDenied, s)"
    using assms by (rule auth_saml_signin_not_found [rotated])
next
  assume m: "filter (\<lambda>l. saml_uid l = uid \<and> saml_provider_id l = provider)
            (res_users_saml_table s) = l # ls"
  let ?user = "user_id l"
  let ?s1 = "signin_token s provider ?user saml_response"
  let ?r = "auth_saml_signin ctx s provider v saml_response"
  show one: "signin_search_user s provider uid = [?user]"
    by (rule signin_search_user_first [OF m])
  have found: "kept ?s1 (snd ?r)" "fst ?r \<noteq> Inl AccessDenied"
    using auth_saml_signin_found [OF assms one, of saml_response ctx] by simp_all
  show "fst ?r \<noteq> Inl AccessDenied" by (rule found(2))
  have tok: "search_token (snd ?r) provider ?user = search_token ?s1 provider ?user"
    using found(1) signin_token_value [of s provider ?user saml_response]
      tokens_backfilled_search by (simp add: kept_def)
  show "search_token (snd ?r) provider ?user \<noteq> []"
    using tok signin_token_value [of s provider ?user saml_response] by simp
  show "list_all (\<lambda>t. saml_access_token t = Some saml_response)
          (search_token (snd ?r) provider ?user)"
    using tok signin_token_value [of s provider ?user saml_response]
    by (simp add: list_all_iff)
  show "logger (snd ?r) =
          (if search_token s provider ?user \<noteq> [] then logger s
           else logger s @ [''Creating auth_saml.token''])"
    using found(1) signin_token_logger [of s provider ?user saml_response]
    by (simp add: kept_def)
qed

theorem signin_resolves_first_match_witness:
  "validation_user_id \<lparr>validation_user_id = Some ''dup'', mapped_attrs = None\<rparr> = Some ''dup''
   \<and> filter (\<lambda>l. saml_uid l = ''dup'' \<and> saml_provider_id l = 1)
        (res_users_saml_table example_env) =
        [\<lparr>user_id = 8, saml_provider_id = 1, saml_uid = ''dup''\<rparr>,
         \<lparr>user_id = 7, saml_provider_id = 1, saml_uid = ''dup''\<rparr>]
   \<and> signin_search_user example_env 1 ''dup'' =
        [user_id \<lparr>user_id = 8, saml_provider_id = 1, saml_uid = ''dup''\<rparr>]
   \<and> fst (auth_saml_signin False example_env 1
             \<lparr>validation_user_id = Some ''dup'', mapped_attrs = None\<rparr> ''blob'')
        \<noteq> Inl AccessDenied"
proof -
  have h1: "validation_user_id \<lparr>validation_user_id = Some ''dup'', mapped_attrs = None\<rparr> =
      Some ''dup''"
    by simp
  have h2: "filter (\<lambda>l. saml_uid l = ''dup'' \<and> saml_provider_id l = 1)
        (res_users_saml_table example_env) =
        [\<lparr>user_id = 8, saml_provider_id = 1, saml_uid = ''dup''\<rparr>,
         \<lparr>user_id = 7, saml_provider_id = 1, saml_uid = ''dup''\<rparr>]"
    by (simp add: example_env_def)
  show ?thesis
    using h1 h2
      signin_resolves_first_match [OF h1, where provider = 1 and s = example_env
        and l = "\<lparr>user_id = 8, saml_provider_id = 1, saml_uid = ''dup''\<rparr>"
        and ls = "[\<lparr>user_id = 7, saml_provider_id = 1, saml_uid = ''dup''\<rparr>]"
        and ctx = False and saml_response = "''blob''"]
    by blast
qed

text \<open>
  The claim as stated fails: the subject \<open>dup\<close> of provider 1 has two links, and the
  sign-in succeeds as bob, the user of the first, with nothing logged but the creation of
  his token.
\<close>

theorem signin_ambiguous_counterexample:
  "length (filter (\<lambda>l. saml_uid l = ''dup'' \<and> saml_provider_id l = 1)
             (res_users_saml_table example_env)) = 2
   \<and> auth_saml_signin False example_env 1
        \<lparr>validation_user_id = Some ''dup'', mapped_attrs = None\<rparr> ''blob'' =
        (Inr (Some ''bob''), example_env_signed_in 8)
   \<and> auth_saml (example_validate ''dup'') False example_env 1 ''blob'' None =
        (Inr (''prod'', ''bob'', ''blob''), example_env_signed_in 8)
   \<and> logger (example_env_signed_in 8) = [''Creating auth_saml.token'']"
  by code_simp


section \<open>Passwords of users with SAML links\<close>

text \<open>
  Claim C2, at the input where the code departs from it. The superuser and the
  administrator \<open>base.user_admin\<close> are both in \<open>_saml_allowed_user_ids\<close>, and the
  administrator has a SAML link. A write of a password on the administrator alone passes
  \<open>_set_password\<close> and the password is stored and kept. The same write on the recordset of
  the two raises \<open>ValueError\<close>: the test reads \<open>self.id\<close>, which a recordset of two
  records does not have.
\<close>

theorem write_password_exempt_users_value_error:
  "allow_saml_and_password example_env = Inr False
   \<and> 1 \<in> saml_allowed_user_ids example_env \<and> 2 \<in> saml_allowed_user_ids example_env
   \<and> saml_ids example_env 2 \<noteq> []
   \<and> fst (write_users False example_env [2] [(''password'', Some ''new-secret'')]) = Inr True
   \<and> browse (snd (write_users False example_env [2] [(''password'', Some ''new-secret'')])) 2 =
       Inr \<lparr>user_ident = 2, login = Some ''admin'',
            password_column = Some (Hashed ''new-secret''), password_cache = None\<rparr>
   \<and> fst (write_users False example_env [1, 2] [(''password'', Some ''new-secret'')]) =
       Inl ValueError
   \<and> fst (set_password
            (update_users (apply_vals [(''password'', Some ''new-secret'')]) [1, 2] example_env)
            [1, 2]) = Inl ValueError"
  by code_simp

text \<open>
  Claim C3, at the input where the code departs from it. Coexistence is disallowed and
  alice, who is not in the allowed set, has a SAML link and a stored password. The test of
  \<open>_autoremove_password_if_saml\<close> reads \<open>rec.password\<close>, which is the empty string for
  a user whose password is not in the cache: the step selects nobody, raises nothing and
  writes nothing, and after a write of her login alice's stored password is the one she
  had.
\<close>

theorem autoremove_keeps_stored_password:
  "allow_saml_and_password example_env = Inr False
   \<and> 7 \<notin> saml_allowed_user_ids example_env
   \<and> saml_ids example_env 7 \<noteq> []
   \<and> browse example_env 7 =
       Inr \<lparr>user_ident = 7, login = Some ''alice'',
            password_column = Some (Hashed ''alice-secret''), password_cache = None\<rparr>
   \<and> autoremove_password_if_saml False example_env [7] = (Inr (), example_env)
   \<and> fst (write_users False example_env [7] [(''login'', Some ''alice2'')]) = Inr True
   \<and> browse (snd (write_users False example_env [7] [(''login'', Some ''alice2'')])) 7 =
       Inr \<lparr>user_ident = 7, login = Some ''alice2'',
            password_column = Some (Hashed ''alice-secret''), password_cache = None\<rparr>"
  by code_simp

text \<open>
  Claim C4, at the input where the code departs from it. Coexistence is disallowed, alice
  and bob are not in the allowed set and have SAML links; a write of a non-empty password
  on the recordset of both raises \<open>ValueError\<close> (\<open>self.id\<close> on two records), not the
  validation error listing their logins.
\<close>

theorem write_password_two_users_value_error:
  "allow_saml_and_password example_env = Inr False
   \<and> 7 \<notin> saml_allowed_user_ids example_env \<and> 8 \<notin> saml_allowed_user_ids example_env
   \<and> saml_ids example_env 7 \<noteq> [] \<and> saml_ids example_env 8 \<noteq> []
   \<and> fst (write_users False example_env [7, 8] [(''password'', Some ''new-secret'')]) =
       Inl ValueError
   \<and> fst (set_password
            (update_users (apply_vals [(''password'', Some ''new-secret'')]) [7, 8] example_env)
            [7, 8]) = Inl ValueError"
  by code_simp


section \<open>Tokens\<close>

text \<open>
  Claim C5. From a state with at most one token for every pair of a user and a provider:
  after the sign-in's token step the pair has exactly one token, carrying the response;
  the table keeps its length when the pair had a token and grows by one otherwise; and
  the state after one sign-in, and after any sequence of sign-ins, still has at most one
  token for every pair.
\<close>

theorem signin_keeps_one_token_per_pair:
  assumes "one_token_per_pair s"
  shows "search_token (signin_token s provider user saml_response) provider user =
           [\<lparr>token_user_id = user, token_provider_id = provider,
             saml_access_token = Some saml_response\<rparr>]
         \<and> length (auth_saml_token_table (signin_token s provider user saml_response)) =
             (if search_token s provider user \<noteq> [] then length (auth_saml_token_table s)
              else length (auth_saml_token_table s) + 1)
         \<and> one_token_per_pair (snd (auth_saml_signin ctx s provider v saml_response))
         \<and> one_token_per_pair (repeated_signin ctx s requests)
         \<and> length (search_token (repeated_signin ctx s requests) p u) \<le> 1"
proof -
  have "one_token_per_pair (repeated_signin ctx s requests)"
    by (rule repeated_signin_one_per_pair [OF assms])
  then show ?thesis
    using signin_token_single [OF assms] signin_token_length
      auth_saml_signin_one_per_pair [OF assms] one_token_per_pair_search
    by simp
qed

theorem signin_keeps_one_token_per_pair_witness:
  "one_token_per_pair example_env
   \<and> one_token_per_pair
       (repeated_signin False example_env
          [(1, \<lparr>validation_user_id = Some ''abc'', mapped_attrs = None\<rparr>, ''first''),
           (1, \<lparr>validation_user_id = Some ''abc'', mapped_attrs = None\<rparr>, ''second'')])
   \<and> length (search_token
       (repeated_signin False example_env
          [(1, \<lparr>validation_user_id = Some ''abc'', mapped_attrs = None\<rparr>, ''first''),
           (1, \<lparr>validation_user_id = Some ''abc'', mapped_attrs = None\<rparr>, ''second'')]) 1 7) \<le> 1"
proof -
  have h: "one_token_per_pair example_env"
    by (simp add: one_token_per_pair_def token_keys_def example_env_def)
  show ?thesis
    using h signin_keeps_one_token_per_pair [OF h, where ctx = False and p = 1 and u = 7
          and requests =
          "[(1, \<lparr>validation_user_id = Some ''abc'', mapped_attrs = None\<rparr>, ''first''),
           (1, \<lparr>validation_user_id = Some ''abc'', mapped_attrs = None\<rparr>, ''second'')]"]
    by blast
qed

text \<open>
  Claim C6. \<open>_ensure_saml_token_exists\<close> run twice gives the state of one run. It leaves
  every existing token as it is; the tokens it adds have no value and are for pairs that
  had no token. From a state with at most one token for every pair, each link of a user
  of the recordset has exactly one token for the user and the link's provider afterwards.
\<close>

theorem ensure_saml_token_exists_idempotent:
  "ensure_saml_token_exists (ensure_saml_token_exists s self) self =
     ensure_saml_token_exists s self
   \<and> take (length (auth_saml_token_table s))
         (auth_saml_token_table (ensure_saml_token_exists s self)) = auth_saml_token_table s
   \<and> list_all (\<lambda>t. saml_access_token t = None
                     \<and> search_token s (token_provider_id t) (token_user_id t) = [])
        (drop (length (auth_saml_token_table s))
           (auth_saml_token_table (ensure_saml_token_exists s self)))
   \<and> (one_token_per_pair s \<and> r \<in> set self \<and> l \<in> set (saml_ids s r) \<longrightarrow>
        length (search_token (ensure_saml_token_exists (ensure_saml_token_exists s self) self)
                  (saml_provider_id l) r) = 1)"
proof -
  let ?s1 = "ensure_saml_token_exists s self"
  have a: "ensure_saml_token_exists ?s1 self = ?s1"
    by (rule ensure_saml_token_exists_twice)
  have b: "take (length (auth_saml_token_table s)) (auth_saml_token_table ?s1) =
             auth_saml_token_table s"
    by (rule tokens_backfilled_prefix [OF ensure_saml_token_exists_backfilled])
  have c: "length (search_token ?s1 (saml_provider_id l) r) = 1"
    if h: "one_token_per_pair s" "r \<in> set self" "l \<in> set (saml_ids s r)"
  proof -
    have "one_token_per_pair ?s1"
      by (rule tokens_backfilled_distinct [OF ensure_saml_token_exists_backfilled h(1)])
    then have "length (search_token ?s1 (saml_provider_id l) r) \<le> 1"
      by (rule one_token_per_pair_search)
    moreover have "search_token ?s1 (saml_provider_id l) r \<noteq> []"
      by (rule ensure_saml_token_exists_present [OF h(2) h(3)])
    ultimately show ?thesis
      by (cases "search_token ?s1 (saml_provider_id l) r") auto
  qed
  show ?thesis
    using a b c ensure_saml_token_exists_new [of s self] by simp
qed

theorem ensure_saml_token_exists_idempotent_witness:
  "one_token_per_pair example_env \<and> (7::int) \<in> set [7, 2]
   \<and> \<lparr>user_id = 7, saml_provider_id = 1, saml_uid = ''abc''\<rparr> \<in> set (saml_ids example_env 7)
   \<and> length (search_token
         (ensure_saml_token_exists (ensure_saml_token_exists example_env [7, 2]) [7, 2]) 1 7) = 1"
proof -
  have h: "one_token_per_pair example_env \<and> (7::int) \<in> set [7, 2]
     \<and> \<lparr>user_id = 7, saml_provider_id = 1, saml_uid = ''abc''\<rparr> \<in> set (saml_ids example_env 7)"
    by (simp add: one_token_per_pair_def token_keys_def example_env_def saml_ids_def)
  have "length (search_token
         (ensure_saml_token_exists (ensure_saml_token_exists example_env [7, 2]) [7, 2])
         (saml_provider_id \<lparr>user_id = 7, saml_provider_id = 1, saml_uid = ''abc''\<rparr>) 7) = 1"
    using h ensure_saml_token_exists_idempotent
      [of example_env "[7, 2]" 7 "\<lparr>user_id = 7, saml_provider_id = 1, saml_uid = ''abc''\<rparr>"]
    by blast
  then show ?thesis
    using h by simp
qed


section \<open>Authentication\<close>

text \<open>
  Claim C7. When the validation yields a subject with a link at the provider and
  \<open>auth_saml\<close> succeeds, it returns the database name, the login of the link's user and
  the response itself, and every token of that user for the provider (there is one)
  carries the response; from a state with at most one token for every pair it is the only
  one.
\<close>

theorem auth_saml_success:
  assumes "validate_auth_response provider saml_response base_url = Inr v"
    and "validation_user_id v = Some uid"
    and "filter (\<lambda>l. saml_uid l = uid \<and> saml_provider_id l = provider)
           (res_users_saml_table s) = l # ls"
    and "auth_saml validate_auth_response ctx s provider saml_response base_url = (Inr res, s')"
  shows "(\<exists>usr lg. browse s' (user_id l) = Inr usr \<and> login usr = Some lg
            \<and> res = (dbname s, lg, saml_response))
         \<and> search_token s' provider (user_id l) \<noteq> []
         \<and> list_all (\<lambda>t. saml_access_token t = Some saml_response)
              (search_token s' provider (user_id l))
         \<and> (one_token_per_pair s \<longrightarrow>
               search_token s' provider (user_id l) =
                 [\<lparr>token_user_id = user_id l, token_provider_id = provider,
                   saml_access_token = Some saml_response\<rparr>])"
proof -
  let ?user = "user_id l"
  let ?s1 = "signin_token s provider ?user saml_response"
  have one: "signin_search_user s provider uid = [?user]"
    by (rule signin_search_user_first [OF assms(3)])
  obtain lg where lg: "auth_saml_signin ctx s provider v saml_response = (Inr (Some lg), s')"
      "res = (dbname s', lg, saml_response)"
    using auth_saml_Inr [OF assms(4)] assms(1) by auto
  have found: "kept ?s1 s'"
      "\<exists>usr. browse s' ?user = Inr usr \<and> login usr = Some lg"
    using auth_saml_signin_found [OF assms(2) one, of saml_response ctx] lg(1) by simp_all
  have db: "dbname s' = dbname s"
    using found(1) signin_token_settings [of s provider ?user saml_response]
    by (simp add: kept_def same_settings_def)
  have tok: "search_token s' provider ?user = search_token ?s1 provider ?user"
    using found(1) signin_token_value [of s provider ?user saml_response]
      tokens_backfilled_search by (simp add: kept_def)
  have single: "one_token_per_pair s \<Longrightarrow> search_token s' provider ?user =
       [\<lparr>token_user_id = ?user, token_provider_id = provider,
         saml_access_token = Some saml_response\<rparr>]"
    using tok signin_token_single by simp
  show ?thesis
    using found(2) lg(2) db tok signin_token_value [of s provider ?user saml_response] single
    by (simp add: list_all_iff)
qed

theorem auth_saml_success_witness:
  "example_validate ''abc'' 1 ''blob'' None =
      Inr \<lparr>validation_user_id = Some ''abc'', mapped_attrs = None\<rparr>
   \<and> filter (\<lambda>l. saml_uid l = ''abc'' \<and> saml_provider_id l = 1)
        (res_users_saml_table example_env) =
        [\<lparr>user_id = 7, saml_provider_id = 1, saml_uid = ''abc''\<rparr>]
   \<and> auth_saml (example_validate ''abc'') False example_env 1 ''blob'' None =
        (Inr (''prod'', ''alice'', ''blob''), example_env_signed_in 7)
   \<and> search_token (example_env_signed_in 7) 1 7 =
        [\<lparr>token_user_id = 7, token_provider_id = 1, saml_access_token = Some ''blob''\<rparr>]"
proof -
  have h1: "example_validate ''abc'' 1 ''blob'' None =
      Inr \<lparr>validation_user_id = Some ''abc'', mapped_attrs = None\<rparr>"
    by (simp add: example_validate_def)
  have h2: "validation_user_id \<lparr>validation_user_id = Some ''abc'', mapped_attrs = None\<rparr> =
      Some ''abc''"
    by simp
  have h3: "filter (\<lambda>l. saml_uid l = ''abc'' \<and> saml_provider_id l = 1)
        (res_users_saml_table example_env) =
        [\<lparr>user_id = 7, saml_provider_id = 1, saml_uid = ''abc''\<rparr>]"
    by (simp add: example_env_def)
  have h4: "auth_saml (example_validate ''abc'') False example_env 1 ''blob'' None =
     (Inr (''prod'', ''alice'', ''blob''), example_env_signed_in 7)"
    by (rule example_signin_alice)
  have h5: "one_token_per_pair example_env"
    by (simp add: one_token_per_pair_def token_keys_def example_env_def)
  have "search_token (example_env_signed_in 7) 1
          (user_id \<lparr>user_id = 7, saml_provider_id = 1, saml_uid = ''abc''\<rparr>) =
        [\<lparr>token_user_id = user_id \<lparr>user_id = 7, saml_provider_id = 1, saml_uid = ''abc''\<rparr>,
          token_provider_id = 1, saml_access_token = Some ''blob''\<rparr>]"
    using h5
      auth_saml_success [where validate_auth_response = "example_validate ''abc''"
        and provider = 1 and saml_response = "''blob''" and base_url = None
        and uid = "''abc''" and s = example_env and ctx = False, OF h1 h2 h3 h4]
    by blast
  then show ?thesis
    using h1 h3 h4 by simp
qed

text \<open>
  Claim C8. When the validation yields a subject with no link at the provider,
  \<open>auth_saml\<close> raises \<open>AccessDenied\<close> and the state, the token table included, is the
  one it started from.
\<close>

theorem auth_saml_no_identity:
  assumes "validate_auth_response provider saml_response base_url = Inr v"
    and "validation_user_id v = Some uid"
    and "filter (\<lambda>l. saml_uid l = uid \<and> saml_provider_id l = provider)
           (res_users_saml_table s) = []"
  shows "auth_saml validate_auth_response ctx s provider saml_response base_url =
           (Inl AccessDenied, s)"
proof -
  have "signin_search_user s provider uid = []"
    using assms(3) by (simp add: signin_search_user_def)
  then have "auth_saml_signin ctx s provider v saml_response = (Inl AccessDenied, s)"
    using assms(2) by (rule auth_saml_signin_not_found [rotated])
  then show ?thesis
    using assms(1) by (simp add: auth_saml_def auth_saml_validate_def)
qed

theorem auth_saml_no_identity_witness:
  "example_validate ''nobody'' 1 ''blob'' None =
      Inr \<lparr>validation_user_id = Some ''nobody'', mapped_attrs = None\<rparr>
   \<and> filter (\<lambda>l. saml_uid l = ''nobody'' \<and> saml_provider_id l = 1)
        (res_users_saml_table example_env) = []
   \<and> auth_saml (example_validate ''nobody'') False example_env 1 ''blob'' None =
        (Inl AccessDenied, example_env)"
proof -
  have h1: "example_validate ''nobody'' 1 ''blob'' None =
      Inr \<lparr>validation_user_id = Some ''nobody'', mapped_attrs = None\<rparr>"
    by (simp add: example_validate_def)
  have h2: "validation_user_id \<lparr>validation_user_id = Some ''nobody'', mapped_attrs = None\<rparr> =
      Some ''nobody''"
    by simp
  have h3: "filter (\<lambda>l. saml_uid l = ''nobody'' \<and> saml_provider_id l = 1)
        (res_users_saml_table example_env) = []"
    by (simp add: example_env_def)
  show ?thesis
    using h1 h3
      auth_saml_no_identity [where validate_auth_response = "example_validate ''nobody''"
        and provider = 1 and saml_response = "''blob''" and base_url = None
        and uid = "''nobody''" and s = example_env and ctx = False, OF h1 h2 h3]
    by simp
qed


section \<open>The credential check\<close>

text \<open>
  Claim C9. \<open>_check_credentials\<close> returns what the base check returns when that
  succeeds. When the base check raises \<open>AccessDenied\<close> or \<open>PasswordSizeError\<close>, it
  succeeds exactly when a token of the session's user has the presented password as its
  value, and raises \<open>AccessDenied\<close> otherwise. Any other error of the base check is raised
  unchanged.
\<close>

theorem check_credentials_fallback:
  "(super_check_credentials s pw = Inr r \<longrightarrow>
      check_credentials super_check_credentials s pw = Inr r)
   \<and> (super_check_credentials s pw = Inl e \<and> (e = AccessDenied \<or> e = PasswordSizeError) \<longrightarrow>
        check_credentials super_check_credentials s pw =
          (if \<exists>t \<in> set (auth_saml_token_table s).
                 token_user_id t = session_uid s \<and> saml_access_token t = Some pw
           then Inr () else Inl AccessDenied))
   \<and> (super_check_credentials s pw = Inl e \<and> e \<noteq> AccessDenied \<and> e \<noteq> PasswordSizeError \<longrightarrow>
        check_credentials super_check_credentials s pw = Inl e)"
  by (auto simp: check_credentials_def filter_empty_conv)

theorem check_credentials_fallback_witness:
  "check_credentials (\<lambda>s pw. Inl AccessDenied) example_env_token ''blob'' = Inr ()
   \<and> check_credentials (\<lambda>s pw. Inl PasswordSizeError) example_env_token ''stale'' =
       Inl AccessDenied
   \<and> check_credentials (\<lambda>s pw. Inl (OtherError ''UserError'')) example_env_token ''blob'' =
       Inl (OtherError ''UserError'')
   \<and> check_credentials (\<lambda>s pw. Inr ()) example_env_token ''alice-secret'' = Inr ()"
  using check_credentials_fallback
      [of "\<lambda>s pw. Inl AccessDenied" example_env_token "''blob''" "()" AccessDenied]
    check_credentials_fallback
      [of "\<lambda>s pw. Inl PasswordSizeError" example_env_token "''stale''" "()" PasswordSizeError]
    check_credentials_fallback
      [of "\<lambda>s pw. Inl (OtherError ''UserError'')" example_env_token "''blob''" "()"
          "OtherError ''UserError''"]
    check_credentials_fallback
      [of "\<lambda>s pw. Inr ()" example_env_token "''alice-secret''" "()" AccessDenied]
  by (simp add: example_env_token_def example_env_def)

end
